theory Spec2Isabelle
  imports Complex_Main "HOL-Library.Signed_Division"
begin

section \<open>Data model of setComparisons.c\<close>

text \<open>
  The reducers of \<^verbatim>\<open>setComparisons.c\<close> read a \<^verbatim>\<open>Multiset\<close> (declared in
  \<^verbatim>\<open>multiSet.h\<close>) and publish their result in a \<^verbatim>\<open>WiggleIterator\<close>.
  A value of type \<open>real\<close> in a window or in an iterator stands for a C
  \<^verbatim>\<open>double\<close>. The T-test part never applies HOL's arithmetic to such a value:
  every operation of the source on doubles is a field of the record
  \<open>double_arith\<close> below, about which nothing is assumed, so that rounding, NaN,
  the infinities and the sign of zero are whatever the machine makes them (a
  double that is not a real number is any real that no finite double is: the
  operations decide what it does, not its place among the reals). The
  Mann-Whitney part computes its rank sum in exact arithmetic: the sum is a
  small multiple of 1/2, which doubles hold exactly. C \<^verbatim>\<open>int\<close> is \<open>int\<close>; the
  one \<^verbatim>\<open>int\<close> product of the T-test goes through \<open>c_int\<close>, which leaves the result
  open when it does not fit 32 bits.
\<close>

text \<open>
  One aligned window of the synchronizer: the fields of \<^verbatim>\<open>Multiset\<close> that
  \<^verbatim>\<open>popMultiset\<close> rewrites at every position.
  \<open>w_inplay ! g\<close> is \<^verbatim>\<open>multi->inplay[g]\<close>,
  \<open>w_multis_inplay ! g ! index\<close> is \<^verbatim>\<open>multi->multis[g]->inplay[index]\<close> and
  \<open>w_values ! g ! index\<close> is \<^verbatim>\<open>multi->values[g][index]\<close>.
\<close>

record Window =
  w_chrom :: string
  w_start :: int
  w_finish :: int
  w_inplay :: "bool list"
  w_multis_inplay :: "bool list list"
  w_values :: "real list list"

text \<open>
  Modelled from the spec: the Window Synchronizer (\<^verbatim>\<open>multiSet.c\<close>) is not part of
  the source file. It "supplies a sequence of aligned genomic windows", has a
  \<^verbatim>\<open>done\<close> flag and "advances on demand". Its state is the list of windows not yet
  consumed: the head is the current window, the empty list is \<^verbatim>\<open>multi->done\<close>.
  \<open>ms_count\<close> is \<^verbatim>\<open>multi->count\<close> and \<open>ms_multis_count ! g\<close> is
  \<^verbatim>\<open>multi->multis[g]->count\<close>; both are fixed for the life of the synchronizer.
\<close>

record Multiset =
  ms_count :: int
  ms_multis_count :: "int list"
  ms_windows :: "Window list"

definition ms_done :: "Multiset \<Rightarrow> bool" where
  "ms_done multi = (ms_windows multi = [])"

definition ms_current :: "Multiset \<Rightarrow> Window" where
  "ms_current multi = hd (ms_windows multi)"

definition popMultiset :: "Multiset \<Rightarrow> Multiset" where
  "popMultiset multi = multi\<lparr>ms_windows := tl (ms_windows multi)\<rparr>"

text \<open>
  The part of \<^verbatim>\<open>WiggleIterator\<close> the reducers touch; \<open>wi_data\<close> is the
  \<^verbatim>\<open>void * data\<close> field, here typed by the reducer's own data structure. The
  synchronizer that the C data structure points to is held by value, and every
  \<^verbatim>\<open>popMultiset(multi)\<close> is written back into it.
\<close>

record 'd WiggleIterator =
  wi_chrom :: string
  wi_start :: int
  wi_finish :: int
  wi_value :: real
  wi_done :: bool
  wi_data :: 'd

record SetComparisonData =
  sc_multi :: Multiset

datatype error = FatalConfiguration string

text \<open>
  Modelled from the spec: \<^verbatim>\<open>newWiggleIterator\<close> (\<^verbatim>\<open>wiggleIterator.c\<close>, not in the
  source file) binds the reducer's data to a fresh iterator. The fields are
  those of a zeroed allocation; the pop and seek handlers are fixed per reducer
  and are not stored in the model.
\<close>

definition newWiggleIterator :: "'d \<Rightarrow> 'd WiggleIterator" where
  "newWiggleIterator data =
     \<lparr>wi_chrom = [], wi_start = 0, wi_finish = 0, wi_value = 0, wi_done = False,
      wi_data = data\<rparr>"

section \<open>The loop shared by both reducers\<close>

text \<open>
  \<^verbatim>\<open>while (!multi->inplay[0] || !multi->inplay[1]) { popMultiset(multi);
  if (multi->done) { wi->done = true; return true; } }\<close>
  entered with \<^verbatim>\<open>multi->done\<close> false. The result is either exhausted (the
  caller then sets \<^verbatim>\<open>wi->done\<close> and returns) or has both group flags set.
\<close>

function skip_loop :: "Multiset \<Rightarrow> Multiset" where
  "skip_loop multi =
     (if ms_done multi then multi
      else if \<not> w_inplay (ms_current multi) ! 0 \<or> \<not> w_inplay (ms_current multi) ! 1
           then skip_loop (popMultiset multi)
      else multi)"
  by pat_completeness auto
termination
  by (relation "measure (\<lambda>multi. length (ms_windows multi))")
     (auto simp: ms_done_def popMultiset_def)

declare skip_loop.simps [simp del]

section \<open>T-test\<close>

text \<open>
  The arithmetic of a run: the operations of the source on doubles, in the
  order of the C operators (\<open>d_of_int\<close> is the conversion of an \<^verbatim>\<open>int\<close> operand,
  \<open>d_eq\<close> and \<open>d_less\<close> are \<^verbatim>\<open>==\<close> and \<^verbatim>\<open><\<close> on doubles), \<^verbatim>\<open>gsl_cdf_tdist_Q\<close> of the
  GNU Scientific Library, the upper tail \<open>P(T\<^sub>\<nu> \<ge> t)\<close> of Student's
  distribution, and \<open>int_overflow\<close>, what an \<^verbatim>\<open>int\<close> operation leaves when its
  exact result is outside the 32-bit range (C does not define it).
\<close>

record double_arith =
  d_of_int :: "int \<Rightarrow> real"
  d_add :: "real \<Rightarrow> real \<Rightarrow> real"
  d_sub :: "real \<Rightarrow> real \<Rightarrow> real"
  d_mul :: "real \<Rightarrow> real \<Rightarrow> real"
  d_div :: "real \<Rightarrow> real \<Rightarrow> real"
  d_neg :: "real \<Rightarrow> real"
  d_sqrt :: "real \<Rightarrow> real"
  d_less :: "real \<Rightarrow> real \<Rightarrow> bool"
  d_eq :: "real \<Rightarrow> real \<Rightarrow> bool"
  gsl_cdf_tdist_Q :: "real \<Rightarrow> real \<Rightarrow> real"
  int_overflow :: "int \<Rightarrow> int"

definition c_int :: "double_arith \<Rightarrow> int \<Rightarrow> int" where
  "c_int ar x = (if - 2147483648 \<le> x \<and> x \<le> 2147483647 then x else int_overflow ar x)"

text \<open>
  The arithmetic of the reals, with \<open>Q\<close> for the distribution function. It is the
  arithmetic of doubles on every input for which each operation of the source
  has an exactly representable, finite result; the examples below use it on
  such inputs only.
\<close>

definition exact_arith :: "(real \<Rightarrow> real \<Rightarrow> real) \<Rightarrow> (int \<Rightarrow> int) \<Rightarrow> double_arith" where
  "exact_arith Q overflow =
     \<lparr>d_of_int = of_int, d_add = (+), d_sub = (-), d_mul = (*), d_div = (/),
      d_neg = uminus, d_sqrt = sqrt, d_less = (<), d_eq = (=),
      gsl_cdf_tdist_Q = Q, int_overflow = overflow\<rparr>"

text \<open>
  The two accumulation loops of \<^verbatim>\<open>TTestReductionPop2\<close>, after
  \<^verbatim>\<open>sum1 = sum2 = 0; sumSq1 = sumSq2 = 0;\<close>:
  \<^verbatim>\<open>for (index = 0; index < count; index++) if (inplay[index]) { sum += v; sumSq += v * v; }\<close>
  The result is the pair \<open>(sum, sumSq)\<close>.
\<close>

definition group_sums ::
  "double_arith \<Rightarrow> bool list \<Rightarrow> real list \<Rightarrow> int \<Rightarrow> real \<times> real" where
  "group_sums ar inplay vals count =
     fold (\<lambda>index (sum, sumSq).
             if inplay ! index
             then (d_add ar sum (vals ! index),
                   d_add ar sumSq (d_mul ar (vals ! index) (vals ! index)))
             else (sum, sumSq))
          [0..<nat count] (d_of_int ar 0, d_of_int ar 0)"

text \<open>
  The statistic of one window, lines 107 to 133 of the source: \<open>None\<close> is the
  \<^verbatim>\<open>var1 + var2 == 0\<close> exit, \<open>Some p\<close> the value stored in \<^verbatim>\<open>wi->value\<close>. The
  counts are \<^verbatim>\<open>int\<close> operands, converted where they meet a double; the product
  \<^verbatim>\<open>count1 * count1 * (count1 - 1)\<close> is computed in \<^verbatim>\<open>int\<close> and converted afterwards.
\<close>

definition ttest_value ::
  "double_arith \<Rightarrow> real \<times> real \<Rightarrow> real \<times> real \<Rightarrow> int \<Rightarrow> int \<Rightarrow> real option" where
  "ttest_value ar s1 s2 count1 count2 =
     (let sum1 = fst s1; sumSq1 = snd s1; sum2 = fst s2; sumSq2 = snd s2;
          mean1 = d_div ar sum1 (d_of_int ar count1);
          mean2 = d_div ar sum2 (d_of_int ar count2);
          meanSq1 = d_div ar sumSq1 (d_of_int ar count1);
          meanSq2 = d_div ar sumSq2 (d_of_int ar count2);
          var1 = d_sub ar meanSq1 (d_mul ar mean1 mean1);
          var2 = d_sub ar meanSq2 (d_mul ar mean2 mean2)
      in if d_eq ar (d_add ar var1 var2) (d_of_int ar 0) then None
         else
           let t0 = d_div ar (d_sub ar mean1 mean2)
                      (d_sqrt ar (d_add ar (d_div ar var1 (d_of_int ar count1))
                                           (d_div ar var2 (d_of_int ar count2))));
               t = (if d_less ar t0 (d_of_int ar 0) then d_neg ar t0 else t0);
               nu = d_div ar
                      (d_mul ar
                         (d_add ar (d_div ar var1 (d_of_int ar count1))
                                   (d_div ar var2 (d_of_int ar count2)))
                         (d_add ar (d_div ar var1 (d_of_int ar count1))
                                   (d_div ar var2 (d_of_int ar count2))))
                      (d_add ar
                         (d_div ar (d_mul ar var1 var1)
                            (d_of_int ar
                               (c_int ar (c_int ar (count1 * count1) * c_int ar (count1 - 1)))))
                         (d_div ar (d_mul ar var2 var2)
                            (d_of_int ar
                               (c_int ar (c_int ar (count2 * count2) * c_int ar (count2 - 1))))))
           in Some (d_mul ar (d_of_int ar 2) (gsl_cdf_tdist_Q ar t nu)))"

text \<open>
  \<^verbatim>\<open>TTestReductionPop2\<close> and \<^verbatim>\<open>TTestReductionPop\<close>. They are mutually recursive:
  the \<^verbatim>\<open>count1 == 0 || count2 == 0\<close> branch calls \<^verbatim>\<open>pop(wi)\<close>.
  Modelled from the spec: \<^verbatim>\<open>pop\<close> is the generic pull of \<^verbatim>\<open>wiggleIterator.c\<close>, not in
  the source file; it runs the pop handler the iterator was built with, here
  \<^verbatim>\<open>TTestReductionPop\<close>. That branch ends in a \<^verbatim>\<open>return;\<close> without a value in a
  function returning \<^verbatim>\<open>bool\<close>: what the caller reads is not determined by the
  source, and is the parameter \<open>ret\<close> applied to the iterator at that point.
\<close>

function TTestReductionPop2 ::
    "(SetComparisonData WiggleIterator \<Rightarrow> bool) \<Rightarrow> double_arith
     \<Rightarrow> SetComparisonData WiggleIterator \<Rightarrow> SetComparisonData WiggleIterator \<times> bool"
  and TTestReductionPop ::
    "(SetComparisonData WiggleIterator \<Rightarrow> bool) \<Rightarrow> double_arith
     \<Rightarrow> SetComparisonData WiggleIterator \<Rightarrow> SetComparisonData WiggleIterator"
where
  "TTestReductionPop2 ret ar wi =
     (if wi_done wi then (wi, True)
      else if ms_done (sc_multi (wi_data wi)) then (wi\<lparr>wi_done := True\<rparr>, True)
      else
        let m = skip_loop (sc_multi (wi_data wi)) in
        if ms_done m then (wi\<lparr>wi_done := True, wi_data := \<lparr>sc_multi = m\<rparr>\<rparr>, True)
        else
          let w = ms_current m;
              wi1 = wi\<lparr>wi_chrom := w_chrom w, wi_start := w_start w,
                       wi_finish := w_finish w\<rparr>;
              count1 = ms_multis_count m ! 0;
              count2 = ms_multis_count m ! 1;
              s1 = group_sums ar (w_multis_inplay w ! 0) (w_values w ! 0) count1;
              s2 = group_sums ar (w_multis_inplay w ! 1) (w_values w ! 1) count2
          in if count1 = 0 \<or> count2 = 0
             then
               let wi2 = TTestReductionPop ret ar (wi1\<lparr>wi_data := \<lparr>sc_multi = popMultiset m\<rparr>\<rparr>)
               in (wi2, ret wi2)
             else
               (case ttest_value ar s1 s2 count1 count2 of
                  None \<Rightarrow> (wi1\<lparr>wi_data := \<lparr>sc_multi = popMultiset m\<rparr>\<rparr>, False)
                | Some p \<Rightarrow>
                    (wi1\<lparr>wi_value := p, wi_data := \<lparr>sc_multi = popMultiset m\<rparr>\<rparr>, True)))"
| "TTestReductionPop ret ar wi =
     (if wi_done wi then wi
      else
        let r = TTestReductionPop2 ret ar wi in
        if snd r then fst r else TTestReductionPop ret ar (fst r))"
  by pat_completeness auto

text \<open>The number of windows the iterator's synchronizer has not consumed yet.\<close>

definition remaining :: "SetComparisonData WiggleIterator \<Rightarrow> nat" where
  "remaining wi = length (ms_windows (sc_multi (wi_data wi)))"

lemma skip_loop_length: "length (ms_windows (skip_loop m)) \<le> length (ms_windows m)"
proof (induction m rule: skip_loop.induct)
  case (1 m)
  show ?case
  proof (cases "\<not> ms_done m \<and> (\<not> w_inplay (ms_current m) ! 0 \<or> \<not> w_inplay (ms_current m) ! 1)")
    case True
    then have "length (ms_windows (skip_loop (popMultiset m))) \<le> length (ms_windows (popMultiset m))"
      using 1 by blast
    moreover have "skip_loop m = skip_loop (popMultiset m)"
      using True by (subst skip_loop.simps) simp
    ultimately show ?thesis by (simp add: popMultiset_def)
  next
    case False
    then have "skip_loop m = m" by (subst skip_loop.simps) auto
    then show ?thesis by simp
  qed
qed

lemma pop_length: "\<not> ms_done m \<Longrightarrow> length (ms_windows (popMultiset m)) < length (ms_windows m)"
  by (simp add: ms_done_def popMultiset_def)


text \<open>
  The branches of \<^verbatim>\<open>TTestReductionPop2\<close>, one equation each, on the domain of the
  recursion; they give the bound that the termination proof of the retry loop
  needs: a call that returns false has consumed a window.
\<close>

lemma Pop2_p_done:
  "TTestReductionPop2_TTestReductionPop_dom (Inl (ret, ar, wi)) \<Longrightarrow> wi_done wi \<Longrightarrow>
   TTestReductionPop2 ret ar wi = (wi, True)"
  by (simp add: TTestReductionPop2.psimps)

lemma Pop2_p_ms_done:
  "TTestReductionPop2_TTestReductionPop_dom (Inl (ret, ar, wi)) \<Longrightarrow> \<not> wi_done wi \<Longrightarrow>
   ms_done (sc_multi (wi_data wi)) \<Longrightarrow>
   TTestReductionPop2 ret ar wi = (wi\<lparr>wi_done := True\<rparr>, True)"
  by (simp add: TTestReductionPop2.psimps)

lemma Pop2_p_exhausted:
  "TTestReductionPop2_TTestReductionPop_dom (Inl (ret, ar, wi)) \<Longrightarrow> \<not> wi_done wi \<Longrightarrow>
   \<not> ms_done (sc_multi (wi_data wi)) \<Longrightarrow> ms_done (skip_loop (sc_multi (wi_data wi))) \<Longrightarrow>
   TTestReductionPop2 ret ar wi =
     (wi\<lparr>wi_done := True, wi_data := \<lparr>sc_multi = skip_loop (sc_multi (wi_data wi))\<rparr>\<rparr>, True)"
  by (simp add: TTestReductionPop2.psimps)


lemma Pop2_p_zero_count:
  "TTestReductionPop2_TTestReductionPop_dom (Inl (ret, ar, wi)) \<Longrightarrow> \<not> wi_done wi \<Longrightarrow>
   \<not> ms_done (sc_multi (wi_data wi)) \<Longrightarrow> m = skip_loop (sc_multi (wi_data wi)) \<Longrightarrow>
   \<not> ms_done m \<Longrightarrow> ms_multis_count m ! 0 = 0 \<or> ms_multis_count m ! 1 = 0 \<Longrightarrow>
   wi2 = TTestReductionPop ret ar
           (wi\<lparr>wi_chrom := w_chrom (ms_current m), wi_start := w_start (ms_current m),
               wi_finish := w_finish (ms_current m),
               wi_data := \<lparr>sc_multi = popMultiset m\<rparr>\<rparr>) \<Longrightarrow>
   TTestReductionPop2 ret ar wi = (wi2, ret wi2)"
  by (simp add: TTestReductionPop2.psimps Let_def)

lemma Pop2_p_value:
  "TTestReductionPop2_TTestReductionPop_dom (Inl (ret, ar, wi)) \<Longrightarrow> \<not> wi_done wi \<Longrightarrow>
   \<not> ms_done (sc_multi (wi_data wi)) \<Longrightarrow> m = skip_loop (sc_multi (wi_data wi)) \<Longrightarrow>
   \<not> ms_done m \<Longrightarrow> ms_multis_count m ! 0 \<noteq> 0 \<Longrightarrow> ms_multis_count m ! 1 \<noteq> 0 \<Longrightarrow>
   w = ms_current m \<Longrightarrow>
   v = ttest_value ar
         (group_sums ar (w_multis_inplay w ! 0) (w_values w ! 0) (ms_multis_count m ! 0))
         (group_sums ar (w_multis_inplay w ! 1) (w_values w ! 1) (ms_multis_count m ! 1))
         (ms_multis_count m ! 0) (ms_multis_count m ! 1) \<Longrightarrow>
   TTestReductionPop2 ret ar wi =
     (case v of
        None \<Rightarrow> (wi\<lparr>wi_chrom := w_chrom w, wi_start := w_start w, wi_finish := w_finish w,
                     wi_data := \<lparr>sc_multi = popMultiset m\<rparr>\<rparr>, False)
      | Some p \<Rightarrow> (wi\<lparr>wi_chrom := w_chrom w, wi_start := w_start w, wi_finish := w_finish w,
                       wi_value := p, wi_data := \<lparr>sc_multi = popMultiset m\<rparr>\<rparr>, True))"
  by (simp add: TTestReductionPop2.psimps Let_def split: option.split)

lemma remaining_simps [simp]:
  "remaining (wi\<lparr>wi_done := d\<rparr>) = remaining wi"
  "remaining (wi\<lparr>wi_chrom := c\<rparr>) = remaining wi"
  "remaining (wi\<lparr>wi_start := a\<rparr>) = remaining wi"
  "remaining (wi\<lparr>wi_finish := b\<rparr>) = remaining wi"
  "remaining (wi\<lparr>wi_value := p\<rparr>) = remaining wi"
  "remaining (wi\<lparr>wi_data := \<lparr>sc_multi = m\<rparr>\<rparr>) = length (ms_windows m)"
  by (simp_all add: remaining_def)

lemma TTest_partial_remaining:
  shows "TTestReductionPop2_TTestReductionPop_dom (Inl (ret, ar, wi)) \<Longrightarrow>
           remaining (fst (TTestReductionPop2 ret ar wi)) \<le> remaining wi \<and>
           (\<not> snd (TTestReductionPop2 ret ar wi) \<longrightarrow>
              remaining (fst (TTestReductionPop2 ret ar wi)) < remaining wi)"
    and "TTestReductionPop2_TTestReductionPop_dom (Inr (ret, ar, wi)) \<Longrightarrow>
           remaining (TTestReductionPop ret ar wi) \<le> remaining wi"
proof (induct rule: TTestReductionPop2_TTestReductionPop.pinduct)
  case (1 ret ar wi)
  define m where "m = skip_loop (sc_multi (wi_data wi))"
  have sl: "length (ms_windows m) \<le> remaining wi"
    by (simp add: m_def remaining_def skip_loop_length)
  consider (a) "wi_done wi"
    | (b) "\<not> wi_done wi" "ms_done (sc_multi (wi_data wi))"
    | (c) "\<not> wi_done wi" "\<not> ms_done (sc_multi (wi_data wi))" "ms_done m"
    | (d) "\<not> wi_done wi" "\<not> ms_done (sc_multi (wi_data wi))" "\<not> ms_done m"
          "ms_multis_count m ! 0 = 0 \<or> ms_multis_count m ! 1 = 0"
    | (e) "\<not> wi_done wi" "\<not> ms_done (sc_multi (wi_data wi))" "\<not> ms_done m"
          "ms_multis_count m ! 0 \<noteq> 0" "ms_multis_count m ! 1 \<noteq> 0"
    by blast
  then show ?case
  proof cases
    case a
    then show ?thesis by (simp add: Pop2_p_done[OF 1(1)])
  next
    case b
    then show ?thesis by (simp add: Pop2_p_ms_done[OF 1(1)])
  next
    case c
    then show ?thesis using sl by (simp add: Pop2_p_exhausted[OF 1(1)] m_def)
  next
    case d
    let ?wi = "wi\<lparr>wi_chrom := w_chrom (ms_current m), wi_start := w_start (ms_current m),
                   wi_finish := w_finish (ms_current m),
                   wi_data := \<lparr>sc_multi = popMultiset m\<rparr>\<rparr>"
    have "remaining (TTestReductionPop ret ar ?wi) \<le> remaining ?wi"
      using 1(2)[OF d(1,2) m_def d(3) refl refl refl refl refl refl d(4)] .
    moreover have "remaining ?wi < length (ms_windows m)"
      using pop_length[OF d(3)] by simp
    ultimately show ?thesis using sl
      by (simp add: Pop2_p_zero_count[OF 1(1) d(1,2) m_def d(3,4) refl])
  next
    case e
    have "length (ms_windows (popMultiset m)) < length (ms_windows m)"
      using pop_length[OF e(3)] .
    then show ?thesis using sl
      by (simp add: Pop2_p_value[OF 1(1) e(1,2) m_def e(3,4,5) refl refl]
               split: option.split)
  qed
next
  case (2 ret ar wi)
  show ?case
  proof (cases "wi_done wi")
    case True
    then show ?thesis by (simp add: TTestReductionPop.psimps[OF 2(1)])
  next
    case False
    show ?thesis
    proof (cases "snd (TTestReductionPop2 ret ar wi)")
      case True
      with False 2(2) show ?thesis
        by (simp add: TTestReductionPop.psimps[OF 2(1)] Let_def)
    next
      case snd: False
      have "remaining (TTestReductionPop ret ar (fst (TTestReductionPop2 ret ar wi)))
              \<le> remaining (fst (TTestReductionPop2 ret ar wi))"
        using 2(3)[OF False refl snd] .
      with False snd 2(2) show ?thesis
        by (simp add: TTestReductionPop.psimps[OF 2(1)] Let_def)
    qed
  qed
qed

termination TTestReductionPop2
proof (relation "measure (\<lambda>x. case x of Inl (ret, ar, wi) \<Rightarrow> 2 * remaining wi
                                       | Inr (ret, ar, wi) \<Rightarrow> 2 * remaining wi + 1)",
       goal_cases)
  case 1
  show ?case by simp
next
  case (2 ret ar wi m w wi1 count1 count2 s1 s2)
  have a: "length (ms_windows m) \<le> remaining wi"
    unfolding 2(3) remaining_def by (rule skip_loop_length)
  have b: "length (ms_windows (popMultiset m)) < length (ms_windows m)"
    using 2(4) by (rule pop_length)
  from a b show ?case by simp
next
  case (3 ret ar wi)
  show ?case by simp
next
  case (4 ret ar wi r)
  then have "remaining (fst r) < remaining wi"
    using TTest_partial_remaining(1)[of ret ar wi] by auto
  then show ?case by simp
qed

declare TTestReductionPop2.simps [simp del] TTestReductionPop.simps [simp del]

text \<open>
  \<^verbatim>\<open>TTestReduction\<close>: \<^verbatim>\<open>puts(...); exit(1)\<close> is the error value. The test short-cuts
  as C's \<^verbatim>\<open>||\<close> does, so the group counts are read only when there are two
  groups.
\<close>

definition TTestReduction :: "Multiset \<Rightarrow> error + SetComparisonData WiggleIterator" where
  "TTestReduction multi =
     (if ms_count multi \<noteq> 2 \<or> ms_multis_count multi ! 0 + ms_multis_count multi ! 1 < 3
      then Inl (FatalConfiguration
        ''The t-test function only works for two sets with enough elements to compute variance'')
      else Inr (newWiggleIterator \<lparr>sc_multi = multi\<rparr>))"

section \<open>Mann-Whitney U\<close>

record ValueSetPair =
  vsp_value :: real
  vsp_set :: bool

record MWUData =
  mwu_multi :: Multiset
  mwu_n1 :: int
  mwu_n2 :: int
  mwu_N :: int
  rankingTable :: "ValueSetPair list"
  normalApproximation :: bool
  mu_U :: real
  sigma_U :: real

text \<open>
  One of the two loops that fill the ranking table: \<open>n\<close> entries, the value of
  the replicate when it is in play and \<open>0\<close> otherwise, all tagged \<open>tag\<close>.
\<close>

definition fill_table :: "bool list \<Rightarrow> real list \<Rightarrow> int \<Rightarrow> bool \<Rightarrow> ValueSetPair list" where
  "fill_table inplay vals n tag =
     map (\<lambda>index. \<lparr>vsp_value = (if inplay ! index then vals ! index else 0), vsp_set = tag\<rparr>)
         [0..<nat n]"

text \<open>
  The inner loop of the branch \<^verbatim>\<open>if (ties)\<close>:
  \<^verbatim>\<open>for (index2 = index + 1; index2 < N && table[index2].value == v && table[index2].set; index2++)
      previousTies++;\<close>
\<close>

function previousTies_loop :: "ValueSetPair list \<Rightarrow> int \<Rightarrow> real \<Rightarrow> nat \<Rightarrow> int \<Rightarrow> int" where
  "previousTies_loop table N v index2 previousTies =
     (if int index2 < N \<and> vsp_value (table ! index2) = v \<and> vsp_set (table ! index2)
      then previousTies_loop table N v (index2 + 1) (previousTies + 1)
      else previousTies)"
  by pat_completeness auto
termination
  by (relation "measure (\<lambda>(table, N, v, index2, previousTies). nat N - index2)") auto

declare previousTies_loop.simps [simp del]

text \<open>
  The inner loop of the other branch:
  \<^verbatim>\<open>for (index2 = index + 1; index2 < N && table[index2].value == v; index2++)
      if (table[index2].set) ties++;\<close>
\<close>

function ties_loop :: "ValueSetPair list \<Rightarrow> int \<Rightarrow> real \<Rightarrow> nat \<Rightarrow> int \<Rightarrow> int" where
  "ties_loop table N v index2 ties =
     (if int index2 < N \<and> vsp_value (table ! index2) = v
      then ties_loop table N v (index2 + 1) (if vsp_set (table ! index2) then ties + 1 else ties)
      else ties)"
  by pat_completeness auto
termination
  by (relation "measure (\<lambda>(table, N, v, index2, ties). nat N - index2)") auto

declare ties_loop.simps [simp del]

text \<open>
  The scan of the sorted table, lines 241 to 273: the state of the \<^verbatim>\<open>for\<close> loop
  is \<open>index\<close>, \<open>U1\<close>, \<open>prev\<close>, \<open>ties\<close> and \<open>previousTies\<close>; the result is \<open>U1\<close>
  when the loop ends.
\<close>

function U1_loop ::
  "ValueSetPair list \<Rightarrow> int \<Rightarrow> int \<Rightarrow> nat \<Rightarrow> real \<Rightarrow> int \<Rightarrow> int \<Rightarrow> int \<Rightarrow> real" where
  "U1_loop table N n1 index U1 prev ties previousTies =
     (if int index < N \<and> prev < n1
      then
        if \<not> vsp_set (table ! index)
        then
          let U1a = U1 + of_int (int index - prev) in
          if ties \<noteq> 0
          then
            let previousTies' =
                  previousTies_loop table N (vsp_value (table ! index)) (index + 1) previousTies;
                U1b = U1a - of_int previousTies' / 2;
                U1c = U1b + of_int (ties - previousTies') / 2
            in if previousTies' = ties
               then U1_loop table N n1 (index + 1) U1c (prev + 1) 0 0
               else U1_loop table N n1 (index + 1) U1c (prev + 1) ties previousTies'
          else
            let ties' = ties_loop table N (vsp_value (table ! index)) (index + 1) ties;
                U1b = (if ties' \<noteq> 0 then U1a + of_int ties' / 2 else U1a)
            in U1_loop table N n1 (index + 1) U1b (prev + 1) ties' previousTies
        else U1_loop table N n1 (index + 1) U1 prev ties previousTies
      else U1)"
  by pat_completeness auto
termination
  by (relation "measure (\<lambda>(table, N, n1, index, U1, prev, ties, previousTies). nat N - index)")
     auto

declare U1_loop.simps [simp del]

text \<open>
  The p-value of lines 275 to 280; \<open>erf\<close> stands for the error function of the
  C library.
\<close>

definition mwu_pvalue :: "(real \<Rightarrow> real) \<Rightarrow> MWUData \<Rightarrow> real \<Rightarrow> real" where
  "mwu_pvalue erf data U1 =
     (if U1 > mu_U data then 2 * erf ((mu_U data - U1) / sigma_U data)
      else 2 * erf ((U1 - mu_U data) / sigma_U data))"

text \<open>
  \<^verbatim>\<open>MWUReductionPop2\<close>. \<open>qsort\<close> stands for the C library's sort with
  \<^verbatim>\<open>compareValueSetPairs\<close>, applied to the \<^verbatim>\<open>data->N\<close> entries of the table, which
  the two loops before it have just overwritten.
\<close>

definition MWUReductionPop2 ::
    "(real \<Rightarrow> real) \<Rightarrow> (ValueSetPair list \<Rightarrow> ValueSetPair list)
     \<Rightarrow> MWUData WiggleIterator \<Rightarrow> MWUData WiggleIterator \<times> bool" where
  "MWUReductionPop2 erf qsort wi =
     (if wi_done wi then (wi, True)
      else
        let data = wi_data wi in
        if ms_done (mwu_multi data) then (wi\<lparr>wi_done := True\<rparr>, True)
        else
          let m = skip_loop (mwu_multi data) in
          if ms_done m then (wi\<lparr>wi_done := True, wi_data := data\<lparr>mwu_multi := m\<rparr>\<rparr>, True)
          else
            let w = ms_current m;
                wi1 = wi\<lparr>wi_chrom := w_chrom w, wi_start := w_start w,
                         wi_finish := w_finish w\<rparr>;
                table = qsort (fill_table (w_multis_inplay w ! 0) (w_values w ! 0)
                                 (mwu_n1 data) False
                               @ fill_table (w_multis_inplay w ! 1) (w_values w ! 1)
                                   (mwu_n2 data) True);
                U1 = U1_loop table (mwu_N data) (mwu_n1 data) 0 0 0 0 0;
                wi2 = (if normalApproximation data
                       then wi1\<lparr>wi_value := mwu_pvalue erf data U1\<rparr> else wi1)
            in (wi2\<lparr>wi_data := data\<lparr>mwu_multi := popMultiset m, rankingTable := table\<rparr>\<rparr>,
                True))"

lemma MWUReductionPop2_returns_true: "snd (MWUReductionPop2 erf qsort wi)"
  by (simp add: MWUReductionPop2_def Let_def)

text \<open>\<^verbatim>\<open>MWUReductionPop\<close>: \<^verbatim>\<open>while (true) if (wi->done || MWUReductionPop2(wi)) break;\<close>\<close>

function MWUReductionPop ::
    "(real \<Rightarrow> real) \<Rightarrow> (ValueSetPair list \<Rightarrow> ValueSetPair list)
     \<Rightarrow> MWUData WiggleIterator \<Rightarrow> MWUData WiggleIterator" where
  "MWUReductionPop erf qsort wi =
     (if wi_done wi then wi
      else
        let r = MWUReductionPop2 erf qsort wi in
        if snd r then fst r else MWUReductionPop erf qsort (fst r))"
  by pat_completeness auto
termination
  by (relation "{}") (auto simp: MWUReductionPop2_returns_true)

declare MWUReductionPop.simps [simp del]

text \<open>
  \<^verbatim>\<open>MWUReduction\<close>. The two constants are computed as the source writes them:
  \<^verbatim>\<open>data->n1 * data->n2 / 2\<close> and the argument of \<^verbatim>\<open>sqrt\<close> are expressions of type
  \<^verbatim>\<open>int\<close>, so \<^verbatim>\<open>/\<close> is C's integer division (\<open>sdiv\<close>, truncating), and the
  quotient is converted to \<^verbatim>\<open>double\<close> afterwards. The table is the zeroed
  allocation of \<^verbatim>\<open>calloc\<close>.
\<close>

definition MWUReduction :: "Multiset \<Rightarrow> error + MWUData WiggleIterator" where
  "MWUReduction multi =
     (if ms_count multi \<noteq> 2 \<or> ms_multis_count multi ! 0 = 0 \<or> ms_multis_count multi ! 1 = 0
      then Inl (FatalConfiguration
        ''The Mann-Whitney U function only works for two non-empty sets'')
      else
        let n1 = ms_multis_count multi ! 0;
            n2 = ms_multis_count multi ! 1;
            N = n1 + n2
        in Inr (newWiggleIterator
                  \<lparr>mwu_multi = multi, mwu_n1 = n1, mwu_n2 = n2, mwu_N = N,
                   rankingTable = replicate (nat N) \<lparr>vsp_value = 0, vsp_set = False\<rparr>,
                   normalApproximation = True,
                   mu_U = of_int (n1 * n2 sdiv 2),
                   sigma_U = sqrt (of_int (n1 * n2 * (n1 + n2 + 1) sdiv 12))\<rparr>))"

section \<open>The streams of emitted records\<close>

text \<open>The record a pull publishes: chromosome, start, finish and value.\<close>

type_synonym output_record = "string \<times> int \<times> int \<times> real"

definition wi_record :: "'d WiggleIterator \<Rightarrow> output_record" where
  "wi_record wi = (wi_chrom wi, wi_start wi, wi_finish wi, wi_value wi)"

text \<open>The test of the skipping loop, negated: both group flags are set.\<close>

definition qualifying :: "Window \<Rightarrow> bool" where
  "qualifying w = (w_inplay w ! 0 \<and> w_inplay w ! 1)"

text \<open>The statistic \<^verbatim>\<open>TTestReductionPop2\<close> computes at window \<open>w\<close>.\<close>

definition ttest_window_value :: "double_arith \<Rightarrow> Multiset \<Rightarrow> Window \<Rightarrow> real option" where
  "ttest_window_value ar multi w =
     ttest_value ar
       (group_sums ar (w_multis_inplay w ! 0) (w_values w ! 0) (ms_multis_count multi ! 0))
       (group_sums ar (w_multis_inplay w ! 1) (w_values w ! 1) (ms_multis_count multi ! 1))
       (ms_multis_count multi ! 0) (ms_multis_count multi ! 1)"

lemma skip_loop_dropWhile:
  "skip_loop m = m\<lparr>ms_windows := dropWhile (\<lambda>w. \<not> qualifying w) (ms_windows m)\<rparr>"
proof (induction m rule: skip_loop.induct)
  case (1 m)
  show ?case
  proof (cases "ms_windows m")
    case Nil
    then show ?thesis by (subst skip_loop.simps) (simp add: ms_done_def)
  next
    case (Cons w ws)
    show ?thesis
    proof (cases "qualifying w")
      case True
      with Cons show ?thesis
        by (subst skip_loop.simps) (simp add: ms_done_def ms_current_def qualifying_def)
    next
      case False
      with Cons have c: "\<not> ms_done m"
        "\<not> w_inplay (ms_current m) ! 0 \<or> \<not> w_inplay (ms_current m) ! 1"
        by (auto simp: ms_done_def ms_current_def qualifying_def)
      have "skip_loop m = skip_loop (popMultiset m)"
        using c by (subst skip_loop.simps) simp
      also have "\<dots> = (popMultiset m)\<lparr>ms_windows :=
                    dropWhile (\<lambda>w. \<not> qualifying w) (ms_windows (popMultiset m))\<rparr>"
        using 1[OF c] .
      finally show ?thesis using Cons False by (simp add: popMultiset_def)
    qed
  qed
qed

text \<open>The iterator after the coordinates of window \<open>w\<close> were published and the
  synchronizer advanced past it.\<close>

definition ttest_at :: "SetComparisonData WiggleIterator \<Rightarrow> Multiset \<Rightarrow> Window \<Rightarrow> Window list
    \<Rightarrow> SetComparisonData WiggleIterator" where
  "ttest_at wi m w rest =
     wi\<lparr>wi_chrom := w_chrom w, wi_start := w_start w, wi_finish := w_finish w,
        wi_data := \<lparr>sc_multi = m\<lparr>ms_windows := rest\<rparr>\<rparr>\<rparr>"

lemma Pop2_exhausted:
  assumes "\<not> wi_done wi" "dropWhile (\<lambda>w. \<not> qualifying w) (ms_windows (sc_multi (wi_data wi))) = []"
  shows "wi_done (fst (TTestReductionPop2 ret ar wi)) \<and> snd (TTestReductionPop2 ret ar wi)"
proof -
  have "ms_done (skip_loop (sc_multi (wi_data wi)))"
    using assms(2) by (simp add: skip_loop_dropWhile ms_done_def)
  then show ?thesis using assms(1) by (simp add: TTestReductionPop2.simps)
qed

lemma Pop2_found:
  assumes nd: "\<not> wi_done wi" and m: "m = sc_multi (wi_data wi)"
    and dw: "dropWhile (\<lambda>w. \<not> qualifying w) (ms_windows m) = w # rest"
  shows "ms_multis_count m ! 0 = 0 \<or> ms_multis_count m ! 1 = 0 \<Longrightarrow>
           TTestReductionPop2 ret ar wi =
             (TTestReductionPop ret ar (ttest_at wi m w rest),
              ret (TTestReductionPop ret ar (ttest_at wi m w rest)))"
    and "ms_multis_count m ! 0 \<noteq> 0 \<Longrightarrow> ms_multis_count m ! 1 \<noteq> 0 \<Longrightarrow>
           TTestReductionPop2 ret ar wi =
             (case ttest_window_value ar m w of
                None \<Rightarrow> (ttest_at wi m w rest, False)
              | Some p \<Rightarrow> ((ttest_at wi m w rest)\<lparr>wi_value := p\<rparr>, True))"
proof -
  define m' where "m' = skip_loop (sc_multi (wi_data wi))"
  have sk: "m' = m\<lparr>ms_windows := w # rest\<rparr>"
    unfolding m'_def using dw m by (simp add: skip_loop_dropWhile)
  have n1: "\<not> ms_done (sc_multi (wi_data wi))"
    using dw m by (auto simp: ms_done_def)
  have n2: "\<not> ms_done m'" by (simp add: sk ms_done_def)
  have cur: "ms_current m' = w" by (simp add: sk ms_current_def)
  have pop: "popMultiset m' = m\<lparr>ms_windows := rest\<rparr>" by (simp add: sk popMultiset_def)
  have cnt: "ms_multis_count m' = ms_multis_count m" by (simp add: sk)
  have eq: "TTestReductionPop2 ret ar wi =
     (let w = ms_current m';
          wi1 = wi\<lparr>wi_chrom := w_chrom w, wi_start := w_start w, wi_finish := w_finish w\<rparr>;
          count1 = ms_multis_count m' ! 0;
          count2 = ms_multis_count m' ! 1;
          s1 = group_sums ar (w_multis_inplay w ! 0) (w_values w ! 0) count1;
          s2 = group_sums ar (w_multis_inplay w ! 1) (w_values w ! 1) count2
      in if count1 = 0 \<or> count2 = 0
         then
           let wi2 = TTestReductionPop ret ar (wi1\<lparr>wi_data := \<lparr>sc_multi = popMultiset m'\<rparr>\<rparr>)
           in (wi2, ret wi2)
         else
           (case ttest_value ar s1 s2 count1 count2 of
              None \<Rightarrow> (wi1\<lparr>wi_data := \<lparr>sc_multi = popMultiset m'\<rparr>\<rparr>, False)
            | Some p \<Rightarrow>
                (wi1\<lparr>wi_value := p, wi_data := \<lparr>sc_multi = popMultiset m'\<rparr>\<rparr>, True)))"
    using nd n1 n2 unfolding m'_def by (subst TTestReductionPop2.simps) (simp add: Let_def)
  show "TTestReductionPop2 ret ar wi =
             (TTestReductionPop ret ar (ttest_at wi m w rest),
              ret (TTestReductionPop ret ar (ttest_at wi m w rest)))"
    if "ms_multis_count m ! 0 = 0 \<or> ms_multis_count m ! 1 = 0"
    using that unfolding eq cur pop cnt ttest_at_def Let_def by simp
  show "TTestReductionPop2 ret ar wi =
             (case ttest_window_value ar m w of
                None \<Rightarrow> (ttest_at wi m w rest, False)
              | Some p \<Rightarrow> ((ttest_at wi m w rest)\<lparr>wi_value := p\<rparr>, True))"
    if "ms_multis_count m ! 0 \<noteq> 0" "ms_multis_count m ! 1 \<noteq> 0"
    using that unfolding eq cur pop cnt ttest_at_def ttest_window_value_def Let_def
    by (simp split: option.split)
qed


definition ttest_emits :: "double_arith \<Rightarrow> Multiset \<Rightarrow> Window \<Rightarrow> bool" where
  "ttest_emits ar multi w = (qualifying w \<and> ttest_window_value ar multi w \<noteq> None)"

definition ttest_record :: "double_arith \<Rightarrow> Multiset \<Rightarrow> Window \<Rightarrow> output_record" where
  "ttest_record ar multi w =
     (w_chrom w, w_start w, w_finish w, the (ttest_window_value ar multi w))"

lemma dropWhile_refine:
  assumes "dropWhile (\<lambda>x. \<not> P x) ws = w # rest" "\<And>x. E x \<Longrightarrow> P x"
  shows "dropWhile (\<lambda>x. \<not> E x) ws = dropWhile (\<lambda>x. \<not> E x) (w # rest)"
  using assms(1)
proof (induction ws)
  case Nil
  then show ?case by simp
next
  case (Cons a ws)
  show ?case
  proof (cases "P a")
    case True
    with Cons.prems show ?thesis by simp
  next
    case False
    then have "\<not> E a" using assms(2) by blast
    with False Cons show ?thesis by simp
  qed
qed

lemma dropWhile_length:
  "dropWhile P ws = w # rest \<Longrightarrow> length rest < length ws"
proof -
  assume a: "dropWhile P ws = w # rest"
  have "length (dropWhile P ws) \<le> length ws" by (rule length_dropWhile_le)
  with a show ?thesis by simp
qed

lemma dropWhile_all_Nil:
  assumes "dropWhile (\<lambda>x. \<not> P x) ws = []" "\<And>x. E x \<Longrightarrow> P x"
  shows "dropWhile (\<lambda>x. \<not> E x) ws = []"
  using assms by (auto simp: dropWhile_eq_Nil_conv)

lemma ttest_window_value_windows [simp]:
  "ttest_window_value ar (m\<lparr>ms_windows := ws\<rparr>) = ttest_window_value ar m"
  by (rule ext) (simp add: ttest_window_value_def)

lemma ttest_emits_windows [simp]:
  "ttest_emits ar (m\<lparr>ms_windows := ws\<rparr>) = ttest_emits ar m"
  by (rule ext) (simp add: ttest_emits_def)

lemma ttest_at_simps [simp]:
  "\<not> wi_done wi \<Longrightarrow> \<not> wi_done (ttest_at wi m w rest)"
  "sc_multi (wi_data (ttest_at wi m w rest)) = m\<lparr>ms_windows := rest\<rparr>"
  "ttest_at (ttest_at wi m w rest) (m\<lparr>ms_windows := rest\<rparr>) w' rest' = ttest_at wi m w' rest'"
  "wi_done ((ttest_at wi m w rest)\<lparr>wi_value := p\<rparr>) = wi_done wi"
  "wi_record ((ttest_at wi m w rest)\<lparr>wi_value := p\<rparr>) = (w_chrom w, w_start w, w_finish w, p)"
  "sc_multi (wi_data ((ttest_at wi m w rest)\<lparr>wi_value := p\<rparr>)) = m\<lparr>ms_windows := rest\<rparr>"
  by (simp_all add: ttest_at_def wi_record_def)

lemma TTestReductionPop_done: "wi_done wi \<Longrightarrow> TTestReductionPop ret ar wi = wi"
  by (simp add: TTestReductionPop.simps)

lemma TTestReductionPop_step:
  "\<not> wi_done wi \<Longrightarrow>
   TTestReductionPop ret ar wi =
     (if snd (TTestReductionPop2 ret ar wi) then fst (TTestReductionPop2 ret ar wi)
      else TTestReductionPop ret ar (fst (TTestReductionPop2 ret ar wi)))"
  by (subst TTestReductionPop.simps) (simp add: Let_def)

lemma TTestReductionPop_char:
  assumes "\<not> wi_done wi" "m = sc_multi (wi_data wi)"
    "ms_multis_count m ! 0 \<noteq> 0" "ms_multis_count m ! 1 \<noteq> 0"
  shows "(dropWhile (\<lambda>w. \<not> ttest_emits ar m w) (ms_windows m) = [] \<longrightarrow>
            wi_done (TTestReductionPop ret ar wi))
       \<and> (\<forall>w rest. dropWhile (\<lambda>w. \<not> ttest_emits ar m w) (ms_windows m) = w # rest \<longrightarrow>
            TTestReductionPop ret ar wi =
              (ttest_at wi m w rest)\<lparr>wi_value := the (ttest_window_value ar m w)\<rparr>)"
  using assms
proof (induction "length (ms_windows m)" arbitrary: wi m rule: less_induct)
  case less
  note nd = less.prems(1) and m = less.prems(2) and c = less.prems(3,4)
  have imp: "\<And>x. ttest_emits ar m x \<Longrightarrow> qualifying x" by (simp add: ttest_emits_def)
  show ?case
  proof (cases "dropWhile (\<lambda>w. \<not> qualifying w) (ms_windows m)")
    case Nil
    then have "wi_done (TTestReductionPop ret ar wi)"
      using Pop2_exhausted[OF nd, of ret ar] m by (simp add: TTestReductionPop_step[OF nd])
    moreover have "dropWhile (\<lambda>w. \<not> ttest_emits ar m w) (ms_windows m) = []"
      using dropWhile_all_Nil[OF Nil imp] .
    ultimately show ?thesis by (simp del: dropWhile_eq_Nil_conv)
  next
    case (Cons w rest)
    note found = Pop2_found(2)[OF nd m Cons c, of ret ar]
    have dw: "dropWhile (\<lambda>w. \<not> ttest_emits ar m w) (ms_windows m)
               = dropWhile (\<lambda>w. \<not> ttest_emits ar m w) (w # rest)"
      using dropWhile_refine[OF Cons imp] .
    have "qualifying (hd (dropWhile (\<lambda>w. \<not> qualifying w) (ms_windows m)))"
      using hd_dropWhile[of "\<lambda>w. \<not> qualifying w" "ms_windows m"] Cons by simp
    then have qw: "qualifying w" using Cons by simp
    show ?thesis
    proof (cases "ttest_window_value ar m w")
      case None
      let ?wi = "ttest_at wi m w rest" and ?m = "m\<lparr>ms_windows := rest\<rparr>"
      have step: "TTestReductionPop ret ar wi = TTestReductionPop ret ar ?wi"
        using found None by (simp add: TTestReductionPop_step[OF nd])
      have ih: "(dropWhile (\<lambda>w. \<not> ttest_emits ar ?m w) (ms_windows ?m) = [] \<longrightarrow>
            wi_done (TTestReductionPop ret ar ?wi))
       \<and> (\<forall>w' rest'. dropWhile (\<lambda>w. \<not> ttest_emits ar ?m w) (ms_windows ?m) = w' # rest' \<longrightarrow>
            TTestReductionPop ret ar ?wi =
              (ttest_at ?wi ?m w' rest')\<lparr>wi_value := the (ttest_window_value ar ?m w')\<rparr>)"
        by (rule less.hyps) (use dropWhile_length[OF Cons] nd c in simp_all)
      have "\<not> ttest_emits ar m w" using None by (simp add: ttest_emits_def)
      then have eq: "dropWhile (\<lambda>w. \<not> ttest_emits ar m w) (ms_windows m)
                 = dropWhile (\<lambda>w. \<not> ttest_emits ar m w) rest"
        using dw by simp
      show ?thesis unfolding eq step using ih by simp
    next
      case (Some p)
      have "TTestReductionPop ret ar wi = (ttest_at wi m w rest)\<lparr>wi_value := p\<rparr>"
        using found Some by (simp add: TTestReductionPop_step[OF nd])
      moreover have "ttest_emits ar m w" using Some qw by (simp add: ttest_emits_def)
      ultimately show ?thesis using Some unfolding dw by simp
    qed
  qed
qed


lemma TTestReductionPop_zero_count:
  assumes "\<not> wi_done wi" "m = sc_multi (wi_data wi)"
    "ms_multis_count m ! 0 = 0 \<or> ms_multis_count m ! 1 = 0"
  shows "wi_done (TTestReductionPop ret ar wi)"
  using assms
proof (induction "length (ms_windows m)" arbitrary: wi m rule: less_induct)
  case less
  note nd = less.prems(1) and m = less.prems(2) and c = less.prems(3)
  show ?case
  proof (cases "dropWhile (\<lambda>w. \<not> qualifying w) (ms_windows m)")
    case Nil
    then show ?thesis
      using Pop2_exhausted[OF nd, of ret ar] m by (simp add: TTestReductionPop_step[OF nd])
  next
    case (Cons w rest)
    let ?wi2 = "TTestReductionPop ret ar (ttest_at wi m w rest)"
    have r: "TTestReductionPop2 ret ar wi = (?wi2, ret ?wi2)"
      using Pop2_found(1)[OF nd m Cons c] .
    have d: "wi_done ?wi2"
      by (rule less.hyps[of "m\<lparr>ms_windows := rest\<rparr>"])
         (use dropWhile_length[OF Cons] nd c in simp_all)
    show ?thesis
      using d by (simp add: TTestReductionPop_step[OF nd] r TTestReductionPop_done)
  qed
qed

lemma TTestReductionPop_remaining:
  assumes "\<not> wi_done (TTestReductionPop ret ar wi)"
  shows "remaining (TTestReductionPop ret ar wi) < remaining wi"
proof -
  define m where "m = sc_multi (wi_data wi)"
  have nd: "\<not> wi_done wi" using assms by (auto simp: TTestReductionPop_done)
  have c: "ms_multis_count m ! 0 \<noteq> 0" "ms_multis_count m ! 1 \<noteq> 0"
    using TTestReductionPop_zero_count[OF nd m_def, of ret ar] assms by auto
  note ch = TTestReductionPop_char[OF nd m_def c, of ar ret]
  show ?thesis
  proof (cases "dropWhile (\<lambda>w. \<not> ttest_emits ar m w) (ms_windows m)")
    case Nil
    with ch assms show ?thesis by blast
  next
    case (Cons w rest)
    with ch have "TTestReductionPop ret ar wi =
        (ttest_at wi m w rest)\<lparr>wi_value := the (ttest_window_value ar m w)\<rparr>" by blast
    then show ?thesis using dropWhile_length[OF Cons]
      by (simp add: remaining_def m_def)
  qed
qed

text \<open>
  Modelled from the spec: the consumer of the iterator is not part of the source
  file. "A consumer repeatedly requests next value from a Reducer"; each pull
  that does not end in \<^verbatim>\<open>done\<close> publishes the record (chrom, start, finish,
  value). The stream is the list of the records published until \<^verbatim>\<open>done\<close>.
\<close>

function TTest_stream ::
    "(SetComparisonData WiggleIterator \<Rightarrow> bool) \<Rightarrow> double_arith
     \<Rightarrow> SetComparisonData WiggleIterator \<Rightarrow> output_record list" where
  "TTest_stream ret ar wi =
     (let wi' = TTestReductionPop ret ar wi
      in if wi_done wi' then [] else wi_record wi' # TTest_stream ret ar wi')"
  by pat_completeness auto
termination
  by (relation "measure (\<lambda>(ret, ar, wi). remaining wi)")
     (auto simp: TTestReductionPop_remaining)

declare TTest_stream.simps [simp del]

lemma dropWhile_filter:
  "dropWhile (\<lambda>x. \<not> P x) ws = w # rest \<Longrightarrow> filter P ws = w # filter P rest"
proof (induction ws)
  case Nil
  then show ?case by simp
next
  case (Cons a ws)
  then show ?case by (cases "P a") auto
qed

lemma TTest_stream_char:
  assumes "\<not> wi_done wi" "m = sc_multi (wi_data wi)"
    "ms_multis_count m ! 0 \<noteq> 0" "ms_multis_count m ! 1 \<noteq> 0"
  shows "TTest_stream ret ar wi = map (ttest_record ar m) (filter (ttest_emits ar m) (ms_windows m))"
  using assms
proof (induction "length (ms_windows m)" arbitrary: wi m rule: less_induct)
  case less
  note nd = less.prems(1) and m = less.prems(2) and c = less.prems(3,4)
  note ch = TTestReductionPop_char[OF nd m c, of ar ret]
  show ?case
  proof (cases "dropWhile (\<lambda>w. \<not> ttest_emits ar m w) (ms_windows m)")
    case Nil
    with ch have "wi_done (TTestReductionPop ret ar wi)" by blast
    then have "TTest_stream ret ar wi = []" by (subst TTest_stream.simps) simp
    moreover have "filter (ttest_emits ar m) (ms_windows m) = []"
      using Nil by (auto simp: dropWhile_eq_Nil_conv filter_empty_conv)
    ultimately show ?thesis by simp
  next
    case (Cons w rest)
    let ?wi = "(ttest_at wi m w rest)\<lparr>wi_value := the (ttest_window_value ar m w)\<rparr>"
    from ch Cons have p: "TTestReductionPop ret ar wi = ?wi" by blast
    have "TTest_stream ret ar ?wi =
            map (ttest_record ar (m\<lparr>ms_windows := rest\<rparr>))
              (filter (ttest_emits ar (m\<lparr>ms_windows := rest\<rparr>)) (ms_windows (m\<lparr>ms_windows := rest\<rparr>)))"
      by (rule less.hyps) (use dropWhile_length[OF Cons] nd c in simp_all)
    then have ih: "TTest_stream ret ar ?wi = map (ttest_record ar m) (filter (ttest_emits ar m) rest)"
      by (simp add: ttest_record_def[abs_def])
    have "TTest_stream ret ar wi = wi_record ?wi # TTest_stream ret ar ?wi"
      using nd by (subst TTest_stream.simps) (simp add: p)
    then show ?thesis
      using ih dropWhile_filter[OF Cons] by (simp add: ttest_record_def)
  qed
qed

lemma TTest_stream_zero_count:
  assumes "\<not> wi_done wi" "m = sc_multi (wi_data wi)"
    "ms_multis_count m ! 0 = 0 \<or> ms_multis_count m ! 1 = 0"
  shows "TTest_stream ret ar wi = []"
  using TTestReductionPop_zero_count[OF assms, of ret ar]
  by (subst TTest_stream.simps) simp

text \<open>
  The sorted ranking table, the rank sum and the record that
  \<^verbatim>\<open>MWUReductionPop2\<close> computes at window \<open>w\<close>.
\<close>

definition mwu_window_table ::
  "(ValueSetPair list \<Rightarrow> ValueSetPair list) \<Rightarrow> MWUData \<Rightarrow> Window \<Rightarrow> ValueSetPair list" where
  "mwu_window_table qsort data w =
     qsort (fill_table (w_multis_inplay w ! 0) (w_values w ! 0) (mwu_n1 data) False
            @ fill_table (w_multis_inplay w ! 1) (w_values w ! 1) (mwu_n2 data) True)"

definition mwu_window_U1 ::
  "(ValueSetPair list \<Rightarrow> ValueSetPair list) \<Rightarrow> MWUData \<Rightarrow> Window \<Rightarrow> real" where
  "mwu_window_U1 qsort data w =
     U1_loop (mwu_window_table qsort data w) (mwu_N data) (mwu_n1 data) 0 0 0 0 0"

definition mwu_record ::
  "(real \<Rightarrow> real) \<Rightarrow> (ValueSetPair list \<Rightarrow> ValueSetPair list) \<Rightarrow> MWUData \<Rightarrow> Window
   \<Rightarrow> output_record" where
  "mwu_record erf qsort data w =
     (w_chrom w, w_start w, w_finish w, mwu_pvalue erf data (mwu_window_U1 qsort data w))"

definition mwu_at ::
  "(real \<Rightarrow> real) \<Rightarrow> (ValueSetPair list \<Rightarrow> ValueSetPair list) \<Rightarrow> MWUData WiggleIterator
   \<Rightarrow> Window \<Rightarrow> Window list \<Rightarrow> MWUData WiggleIterator" where
  "mwu_at erf qsort wi w rest =
     wi\<lparr>wi_chrom := w_chrom w, wi_start := w_start w, wi_finish := w_finish w,
        wi_value := (if normalApproximation (wi_data wi)
                     then mwu_pvalue erf (wi_data wi) (mwu_window_U1 qsort (wi_data wi) w)
                     else wi_value wi),
        wi_data := (wi_data wi)\<lparr>mwu_multi := (mwu_multi (wi_data wi))\<lparr>ms_windows := rest\<rparr>,
                                 rankingTable := mwu_window_table qsort (wi_data wi) w\<rparr>\<rparr>"

lemma MWUReductionPop_eq: "MWUReductionPop erf qsort wi = fst (MWUReductionPop2 erf qsort wi)"
  by (subst MWUReductionPop.simps)
     (simp add: Let_def MWUReductionPop2_returns_true, simp add: MWUReductionPop2_def)

lemma MWUReductionPop_char:
  assumes "\<not> wi_done wi"
  shows "(dropWhile (\<lambda>w. \<not> qualifying w) (ms_windows (mwu_multi (wi_data wi))) = [] \<longrightarrow>
            wi_done (MWUReductionPop erf qsort wi))
       \<and> (\<forall>w rest. dropWhile (\<lambda>w. \<not> qualifying w) (ms_windows (mwu_multi (wi_data wi))) = w # rest \<longrightarrow>
            MWUReductionPop erf qsort wi = mwu_at erf qsort wi w rest)"
proof (intro conjI allI impI)
  assume "dropWhile (\<lambda>w. \<not> qualifying w) (ms_windows (mwu_multi (wi_data wi))) = []"
  then have "ms_done (skip_loop (mwu_multi (wi_data wi)))"
    by (simp add: skip_loop_dropWhile ms_done_def)
  then show "wi_done (MWUReductionPop erf qsort wi)"
    by (simp add: MWUReductionPop_eq MWUReductionPop2_def Let_def)
next
  fix w rest
  assume dw: "dropWhile (\<lambda>w. \<not> qualifying w) (ms_windows (mwu_multi (wi_data wi))) = w # rest"
  define m' where "m' = skip_loop (mwu_multi (wi_data wi))"
  have sk: "m' = (mwu_multi (wi_data wi))\<lparr>ms_windows := w # rest\<rparr>"
    unfolding m'_def using dw by (simp add: skip_loop_dropWhile)
  have n1: "\<not> ms_done (mwu_multi (wi_data wi))" using dw by (auto simp: ms_done_def)
  have n2: "\<not> ms_done m'" by (simp add: sk ms_done_def)
  have cur: "ms_current m' = w" by (simp add: sk ms_current_def)
  have pop: "popMultiset m' = (mwu_multi (wi_data wi))\<lparr>ms_windows := rest\<rparr>"
    by (simp add: sk popMultiset_def)
  show "MWUReductionPop erf qsort wi = mwu_at erf qsort wi w rest"
    using assms n1 n2 cur pop
    unfolding MWUReductionPop_eq MWUReductionPop2_def m'_def[symmetric] Let_def
    by (simp add: m'_def[symmetric] mwu_at_def mwu_window_U1_def mwu_window_table_def)
qed

definition mwu_remaining :: "MWUData WiggleIterator \<Rightarrow> nat" where
  "mwu_remaining wi = length (ms_windows (mwu_multi (wi_data wi)))"

lemma MWUReductionPop_remaining:
  assumes "\<not> wi_done (MWUReductionPop erf qsort wi)"
  shows "mwu_remaining (MWUReductionPop erf qsort wi) < mwu_remaining wi"
proof -
  have nd: "\<not> wi_done wi"
    using assms by (subst (asm) MWUReductionPop.simps) (auto split: if_splits)
  note ch = MWUReductionPop_char[OF nd, of erf qsort]
  show ?thesis
  proof (cases "dropWhile (\<lambda>w. \<not> qualifying w) (ms_windows (mwu_multi (wi_data wi)))")
    case Nil
    with ch assms show ?thesis by blast
  next
    case (Cons w rest)
    with ch have "MWUReductionPop erf qsort wi = mwu_at erf qsort wi w rest" by blast
    then show ?thesis using dropWhile_length[OF Cons]
      by (simp add: mwu_remaining_def mwu_at_def)
  qed
qed

text \<open>
  Modelled from the spec: the consumer of the Mann-Whitney iterator, as for the
  T-test: the records published by successive pulls until \<^verbatim>\<open>done\<close>.
\<close>

function MWU_stream ::
    "(real \<Rightarrow> real) \<Rightarrow> (ValueSetPair list \<Rightarrow> ValueSetPair list)
     \<Rightarrow> MWUData WiggleIterator \<Rightarrow> output_record list" where
  "MWU_stream erf qsort wi =
     (let wi' = MWUReductionPop erf qsort wi
      in if wi_done wi' then [] else wi_record wi' # MWU_stream erf qsort wi')"
  by pat_completeness auto
termination
  by (relation "measure (\<lambda>(erf, qsort, wi). mwu_remaining wi)")
     (auto simp: MWUReductionPop_remaining)

declare MWU_stream.simps [simp del]

lemma mwu_at_pvalue [simp]:
  "mwu_pvalue erf' (wi_data (mwu_at erf qsort wi w rest)) = mwu_pvalue erf' (wi_data wi)"
  by (rule ext) (simp add: mwu_at_def mwu_pvalue_def)

lemma mwu_at_U1 [simp]:
  "mwu_window_U1 qsort' (wi_data (mwu_at erf qsort wi w rest)) = mwu_window_U1 qsort' (wi_data wi)"
  by (rule ext) (simp add: mwu_at_def mwu_window_U1_def mwu_window_table_def)

lemma mwu_at_simps [simp]:
  "wi_done (mwu_at erf qsort wi w rest) = wi_done wi"
  "ms_windows (mwu_multi (wi_data (mwu_at erf qsort wi w rest))) = rest"
  "normalApproximation (wi_data (mwu_at erf qsort wi w rest)) = normalApproximation (wi_data wi)"
  "normalApproximation (wi_data wi) \<Longrightarrow>
     wi_record (mwu_at erf qsort wi w rest) = mwu_record erf qsort (wi_data wi) w"
  by (simp_all add: mwu_at_def wi_record_def mwu_record_def)

lemma MWU_stream_char:
  assumes "\<not> wi_done wi" "normalApproximation (wi_data wi)"
  shows "MWU_stream erf qsort wi =
           map (mwu_record erf qsort (wi_data wi))
               (filter qualifying (ms_windows (mwu_multi (wi_data wi))))"
  using assms
proof (induction "mwu_remaining wi" arbitrary: wi rule: less_induct)
  case less
  note nd = less.prems(1) and na = less.prems(2)
  note ch = MWUReductionPop_char[OF nd, of erf qsort]
  show ?case
  proof (cases "dropWhile (\<lambda>w. \<not> qualifying w) (ms_windows (mwu_multi (wi_data wi)))")
    case Nil
    with ch have "wi_done (MWUReductionPop erf qsort wi)" by blast
    then have "MWU_stream erf qsort wi = []" by (subst MWU_stream.simps) simp
    moreover have "filter qualifying (ms_windows (mwu_multi (wi_data wi))) = []"
      using Nil by (auto simp: dropWhile_eq_Nil_conv filter_empty_conv)
    ultimately show ?thesis by simp
  next
    case (Cons w rest)
    let ?wi = "mwu_at erf qsort wi w rest"
    from ch Cons have p: "MWUReductionPop erf qsort wi = ?wi" by blast
    have "MWU_stream erf qsort ?wi =
            map (mwu_record erf qsort (wi_data ?wi))
               (filter qualifying (ms_windows (mwu_multi (wi_data ?wi))))"
      by (rule less.hyps) (use dropWhile_length[OF Cons] nd na in \<open>simp_all add: mwu_remaining_def\<close>)
    then have ih: "MWU_stream erf qsort ?wi =
        map (mwu_record erf qsort (wi_data wi)) (filter qualifying rest)"
      by (simp add: mwu_record_def[abs_def])
    have "MWU_stream erf qsort wi = wi_record ?wi # MWU_stream erf qsort ?wi"
      using nd by (subst MWU_stream.simps) (simp add: p Let_def)
    then show ?thesis
      using ih dropWhile_filter[OF Cons] na by simp
  qed
qed

text \<open>
  Modelled from the spec: the group flag \<^verbatim>\<open>multi->inplay[g]\<close> is maintained by the
  synchronizer, outside the source file. The spec reads it as "the group has at
  least one in-play replicate"; \<open>flags_consistent\<close> says that the flags of a window
  agree with the replicate flags in that way.
\<close>

definition has_inplay_replicate :: "Multiset \<Rightarrow> Window \<Rightarrow> nat \<Rightarrow> bool" where
  "has_inplay_replicate multi w g =
     list_ex (\<lambda>index. w_multis_inplay w ! g ! index) [0..<nat (ms_multis_count multi ! g)]"

definition flags_consistent :: "Multiset \<Rightarrow> Window \<Rightarrow> bool" where
  "flags_consistent multi w =
     (w_inplay w ! 0 = has_inplay_replicate multi w 0 \<and>
      w_inplay w ! 1 = has_inplay_replicate multi w 1)"

text \<open>A synchronizer with two windows, used to instantiate the theorems below.\<close>

definition example_window_A :: Window where
  "example_window_A =
     \<lparr>w_chrom = ''chr1'', w_start = 0, w_finish = 10, w_inplay = [True, True],
      w_multis_inplay = [[True, True], [True, True]], w_values = [[1, 3], [5, 7]]\<rparr>"

definition example_window_B :: Window where
  "example_window_B =
     \<lparr>w_chrom = ''chr1'', w_start = 10, w_finish = 20, w_inplay = [True, False],
      w_multis_inplay = [[True, False], [False, False]], w_values = [[1, 0], [0, 0]]\<rparr>"

definition example_multiset :: Multiset where
  "example_multiset =
     \<lparr>ms_count = 2, ms_multis_count = [2, 2],
      ms_windows = [example_window_A, example_window_B]\<rparr>"

lemma TTestReduction_Inr:
  "TTestReduction multi = Inr wi \<Longrightarrow> \<not> wi_done wi \<and> sc_multi (wi_data wi) = multi"
  by (auto simp: TTestReduction_def newWiggleIterator_def split: if_splits)

lemma MWUReduction_Inr:
  "MWUReduction multi = Inr wi \<Longrightarrow>
     \<not> wi_done wi \<and> mwu_multi (wi_data wi) = multi \<and> normalApproximation (wi_data wi)
     \<and> ms_count multi = 2
     \<and> mwu_n1 (wi_data wi) = ms_multis_count multi ! 0 \<and> mwu_n1 (wi_data wi) \<noteq> 0
     \<and> mwu_n2 (wi_data wi) = ms_multis_count multi ! 1 \<and> mwu_n2 (wi_data wi) \<noteq> 0
     \<and> mwu_N (wi_data wi) = mwu_n1 (wi_data wi) + mwu_n2 (wi_data wi)"
  by (auto simp: MWUReduction_def newWiggleIterator_def Let_def split: if_splits)

text \<open>
  The sum \<^verbatim>\<open>var1 + var2\<close> of line 115, as the source computes it from the two
  pairs of sums (lines 107 to 112); \<open>ttest_value\<close> is \<open>None\<close> exactly when the
  test \<^verbatim>\<open>var1 + var2 == 0\<close> succeeds on it.
\<close>

definition var_sum :: "double_arith \<Rightarrow> real \<times> real \<Rightarrow> real \<times> real \<Rightarrow> int \<Rightarrow> int \<Rightarrow> real" where
  "var_sum ar s1 s2 count1 count2 =
     (let mean1 = d_div ar (fst s1) (d_of_int ar count1);
          mean2 = d_div ar (fst s2) (d_of_int ar count2);
          meanSq1 = d_div ar (snd s1) (d_of_int ar count1);
          meanSq2 = d_div ar (snd s2) (d_of_int ar count2);
          var1 = d_sub ar meanSq1 (d_mul ar mean1 mean1);
          var2 = d_sub ar meanSq2 (d_mul ar mean2 mean2)
      in d_add ar var1 var2)"

lemma ttest_value_None_iff:
  "ttest_value ar s1 s2 count1 count2 = None \<longleftrightarrow>
     d_eq ar (var_sum ar s1 s2 count1 count2) (d_of_int ar 0)"
  by (simp add: ttest_value_def var_sum_def Let_def)

lemma TTest_stream_flags:
  assumes "TTestReduction multi = Inr wi"
    "\<forall>w \<in> set (ms_windows multi). flags_consistent multi w"
  shows "TTest_stream ret ar wi =
           map (ttest_record ar multi)
             (filter (\<lambda>w. has_inplay_replicate multi w 0 \<and> has_inplay_replicate multi w 1
                           \<and> ttest_window_value ar multi w \<noteq> None)
                (ms_windows multi))"
proof -
  note wi = TTestReduction_Inr[OF assms(1)]
  have q: "\<And>w. w \<in> set (ms_windows multi) \<Longrightarrow>
      qualifying w = (has_inplay_replicate multi w 0 \<and> has_inplay_replicate multi w 1)"
    using assms(2) by (simp add: flags_consistent_def qualifying_def)
  show ?thesis
  proof (cases "ms_multis_count multi ! 0 = 0 \<or> ms_multis_count multi ! 1 = 0")
    case True
    have "TTest_stream ret ar wi = []"
      using TTest_stream_zero_count[of wi multi ret ar] wi True by simp
    moreover have "\<And>w. \<not> (has_inplay_replicate multi w 0 \<and> has_inplay_replicate multi w 1)"
      using True by (auto simp: has_inplay_replicate_def)
    ultimately show ?thesis by (auto simp: filter_empty_conv)
  next
    case False
    then have "TTest_stream ret ar wi =
        map (ttest_record ar multi) (filter (ttest_emits ar multi) (ms_windows multi))"
      using TTest_stream_char[of wi multi ret ar] wi by simp
    moreover have "filter (ttest_emits ar multi) (ms_windows multi) =
        filter (\<lambda>w. has_inplay_replicate multi w 0 \<and> has_inplay_replicate multi w 1
                           \<and> ttest_window_value ar multi w \<noteq> None) (ms_windows multi)"
      by (rule filter_cong) (auto simp: ttest_emits_def q)
    ultimately show ?thesis by simp
  qed
qed

text \<open>The values of the in-play replicates of a group, in the order of the replicates.\<close>

definition inplay_values :: "bool list \<Rightarrow> real list \<Rightarrow> real list" where
  "inplay_values inplay vals = map snd (filter fst (zip inplay vals))"

text \<open>
  The sum \<^verbatim>\<open>var1 + var2\<close> that \<^verbatim>\<open>TTestReductionPop2\<close> computes at window \<open>w\<close>, and
  the outcome of its test \<^verbatim>\<open>var1 + var2 == 0\<close> there.
\<close>

definition computed_var_sum :: "double_arith \<Rightarrow> Multiset \<Rightarrow> Window \<Rightarrow> real" where
  "computed_var_sum ar multi w =
     var_sum ar
       (group_sums ar (w_multis_inplay w ! 0) (w_values w ! 0) (ms_multis_count multi ! 0))
       (group_sums ar (w_multis_inplay w ! 1) (w_values w ! 1) (ms_multis_count multi ! 1))
       (ms_multis_count multi ! 0) (ms_multis_count multi ! 1)"

definition zero_variance_test :: "double_arith \<Rightarrow> Multiset \<Rightarrow> Window \<Rightarrow> bool" where
  "zero_variance_test ar multi w = d_eq ar (computed_var_sum ar multi w) (d_of_int ar 0)"

lemma ttest_window_value_None:
  "ttest_window_value ar multi w = None \<longleftrightarrow> zero_variance_test ar multi w"
  by (simp add: ttest_window_value_def ttest_value_None_iff computed_var_sum_def
        zero_variance_test_def)

lemma newWiggleIterator_simps [simp]:
  "\<not> wi_done (newWiggleIterator d)" "wi_data (newWiggleIterator d) = d"
  by (simp_all add: newWiggleIterator_def)

lemma single_window_stream:
  assumes "\<not> wi_done wi" "sc_multi (wi_data wi) = m" "ms_windows m = [w]" "qualifying w"
    "ms_multis_count m ! 0 \<noteq> 0" "ms_multis_count m ! 1 \<noteq> 0"
    "ttest_window_value ar m w = Some p"
  shows "TTest_stream ret ar wi = [(w_chrom w, w_start w, w_finish w, p)]"
  using TTest_stream_char[of wi m ret ar] assms
  by (simp add: ttest_emits_def ttest_record_def)

lemma filter_dropWhile:
  assumes "\<And>x. E x \<Longrightarrow> P x"
  shows "filter E ws = filter E (dropWhile (\<lambda>x. \<not> P x) ws)"
  by (induction ws) (use assms in auto)


lemma TTest_stream_cong:
  assumes "TTestReductionPop ret ar wi = TTestReductionPop ret ar wi'"
  shows "TTest_stream ret ar wi = TTest_stream ret ar wi'"
proof -
  have "TTest_stream ret ar wi =
          (let wi1 = TTestReductionPop ret ar wi
           in if wi_done wi1 then [] else wi_record wi1 # TTest_stream ret ar wi1)"
    by (rule TTest_stream.simps)
  also have "\<dots> = (let wi1 = TTestReductionPop ret ar wi'
           in if wi_done wi1 then [] else wi_record wi1 # TTest_stream ret ar wi1)"
    by (simp only: assms)
  also have "\<dots> = TTest_stream ret ar wi'"
    by (rule TTest_stream.simps[symmetric])
  finally show ?thesis .
qed



text \<open>The value field of an emitted record.\<close>

definition record_value :: "output_record \<Rightarrow> real" where
  "record_value r = snd (snd (snd r))"

lemma mwu_pvalue_sign:
  assumes "0 < sigma_U data" "erf 0 = 0" "\<forall>x<0. erf x < 0"
  shows "mwu_pvalue erf data U1 \<le> 0 \<and> (mwu_pvalue erf data U1 = 0 \<longleftrightarrow> U1 = mu_U data)"
proof (cases "U1 > mu_U data")
  case True
  then have "(mu_U data - U1) / sigma_U data < 0"
    using assms(1) by (simp add: divide_neg_pos)
  then have "erf ((mu_U data - U1) / sigma_U data) < 0" using assms(3) by blast
  then show ?thesis using True by (simp add: mwu_pvalue_def)
next
  case False
  show ?thesis
  proof (cases "U1 = mu_U data")
    case True
    then show ?thesis using assms(2) by (simp add: mwu_pvalue_def)
  next
    case ne: False
    then have "(U1 - mu_U data) / sigma_U data < 0"
      using False assms(1) by (simp add: divide_neg_pos)
    then have "erf ((U1 - mu_U data) / sigma_U data) < 0" using assms(3) by blast
    then show ?thesis using False ne by (simp add: mwu_pvalue_def)
  qed
qed

text \<open>Entries of the ranking table: tagged group A (\<open>set = false\<close>) and group B.\<close>

definition entry_A :: "real \<Rightarrow> ValueSetPair" where
  "entry_A v = \<lparr>vsp_value = v, vsp_set = False\<rparr>"

definition entry_B :: "real \<Rightarrow> ValueSetPair" where
  "entry_B v = \<lparr>vsp_value = v, vsp_set = True\<rparr>"

lemmas rank_loops = U1_loop.simps ties_loop.simps previousTies_loop.simps

section \<open>Inputs used in the examples\<close>

text \<open>Both groups fully in play, group A constant 1, group B constant 4.\<close>

definition constant_window :: Window where
  "constant_window =
     \<lparr>w_chrom = ''chr1'', w_start = 0, w_finish = 10, w_inplay = [True, True],
      w_multis_inplay = [[True, True], [True, True]], w_values = [[1, 1], [4, 4]]\<rparr>"

text \<open>Two replicates in each group, the first in play with value 1, the second not.\<close>

definition partly_inplay_window :: Window where
  "partly_inplay_window =
     \<lparr>w_chrom = ''chr1'', w_start = 0, w_finish = 10, w_inplay = [True, True],
      w_multis_inplay = [[True, False], [True, False]], w_values = [[1, 0], [1, 0]]\<rparr>"

definition partly_inplay_multiset :: Multiset where
  "partly_inplay_multiset =
     \<lparr>ms_count = 2, ms_multis_count = [2, 2], ms_windows = [partly_inplay_window]\<rparr>"

text \<open>The Mann-Whitney example of the specification: A = [1, 2] and B = [3, 4].\<close>

definition mwu_example_window :: Window where
  "mwu_example_window =
     \<lparr>w_chrom = ''chr1'', w_start = 0, w_finish = 10, w_inplay = [True, True],
      w_multis_inplay = [[True, True], [True, True]], w_values = [[1, 2], [3, 4]]\<rparr>"

definition mwu_example_multiset :: Multiset where
  "mwu_example_multiset =
     \<lparr>ms_count = 2, ms_multis_count = [2, 2], ms_windows = [mwu_example_window]\<rparr>"

text \<open>All replicates in play with the same value: A = [7, 7], B = [7].\<close>

definition tied_window :: Window where
  "tied_window =
     \<lparr>w_chrom = ''chr1'', w_start = 0, w_finish = 10, w_inplay = [True, True],
      w_multis_inplay = [[True, True], [True]], w_values = [[7, 7], [7]]\<rparr>"

definition tied_multiset :: Multiset where
  "tied_multiset = \<lparr>ms_count = 2, ms_multis_count = [2, 1], ms_windows = [tied_window]\<rparr>"

text \<open>Both groups fully in play, A = [1, 3] and B = [5, 7], at the next position.\<close>

definition varied_window :: Window where
  "varied_window =
     \<lparr>w_chrom = ''chr1'', w_start = 10, w_finish = 20, w_inplay = [True, True],
      w_multis_inplay = [[True, True], [True, True]], w_values = [[1, 3], [5, 7]]\<rparr>"

definition constant_first_multiset :: Multiset where
  "constant_first_multiset =
     \<lparr>ms_count = 2, ms_multis_count = [2, 2],
      ms_windows = [constant_window, varied_window]\<rparr>"



text \<open>The statistic of the window \<open>A = [1, 3]\<close>, \<open>B = [5, 7]\<close> in exact arithmetic.\<close>

lemma varied_window_value:
  "ms_multis_count m = [2, 2] \<Longrightarrow>
   ttest_window_value (exact_arith Q overflow) m varied_window = Some (2 * Q 4 2)"
  by (simp add: ttest_window_value_def ttest_value_def exact_arith_def c_int_def
        varied_window_def group_sums_def upt_rec Let_def)

section \<open>Construction\<close>

text \<open>
  C7. \<^verbatim>\<open>TTestReduction\<close> ends the process with the fatal configuration error
  exactly when the group count differs from two or \<open>n1 + n2 < 3\<close>;
  \<^verbatim>\<open>MWUReduction\<close> exactly when the group count differs from two or \<open>n1 = 0\<close> or
  \<open>n2 = 0\<close>. In every other configuration the result is a reducer with all its
  fields set: not done, bound to the synchronizer, and for Mann-Whitney with the
  counts, the table of \<open>N\<close> entries and the normal approximation switched on.
  The result type has no third alternative: a reducer is either returned whole
  or not at all.
\<close>

theorem construction_validation:
  "((\<exists>e. TTestReduction multi = Inl e) \<longleftrightarrow>
      (ms_count multi \<noteq> 2 \<or> ms_multis_count multi ! 0 + ms_multis_count multi ! 1 < 3))
   \<and> ((\<exists>e. MWUReduction multi' = Inl e) \<longleftrightarrow>
      (ms_count multi' \<noteq> 2 \<or> ms_multis_count multi' ! 0 = 0 \<or> ms_multis_count multi' ! 1 = 0))
   \<and> (\<not> (ms_count multi \<noteq> 2 \<or> ms_multis_count multi ! 0 + ms_multis_count multi ! 1 < 3) \<longrightarrow>
        (\<exists>wi. TTestReduction multi = Inr wi \<and> \<not> wi_done wi \<and> sc_multi (wi_data wi) = multi))
   \<and> (\<not> (ms_count multi' \<noteq> 2 \<or> ms_multis_count multi' ! 0 = 0 \<or> ms_multis_count multi' ! 1 = 0) \<longrightarrow>
        (\<exists>wi. MWUReduction multi' = Inr wi \<and> \<not> wi_done wi
           \<and> mwu_multi (wi_data wi) = multi'
           \<and> mwu_n1 (wi_data wi) = ms_multis_count multi' ! 0
           \<and> mwu_n2 (wi_data wi) = ms_multis_count multi' ! 1
           \<and> mwu_N (wi_data wi) = mwu_n1 (wi_data wi) + mwu_n2 (wi_data wi)
           \<and> length (rankingTable (wi_data wi)) = nat (mwu_N (wi_data wi))
           \<and> normalApproximation (wi_data wi)))"
  by (auto simp: TTestReduction_def MWUReduction_def newWiggleIterator_def Let_def)

theorem construction_validation_witness:
  "(\<exists>wi. TTestReduction \<lparr>ms_count = 2, ms_multis_count = [2, 1], ms_windows = []\<rparr> = Inr wi)
   \<and> (\<exists>e. TTestReduction \<lparr>ms_count = 2, ms_multis_count = [1, 1], ms_windows = []\<rparr> = Inl e)
   \<and> (\<exists>wi. MWUReduction \<lparr>ms_count = 2, ms_multis_count = [1, 1], ms_windows = []\<rparr> = Inr wi)
   \<and> (\<exists>e. MWUReduction \<lparr>ms_count = 2, ms_multis_count = [0, 3], ms_windows = []\<rparr> = Inl e)"
  using construction_validation
          [of "\<lparr>ms_count = 2, ms_multis_count = [2, 1], ms_windows = []\<rparr>"
              "\<lparr>ms_count = 2, ms_multis_count = [1, 1], ms_windows = []\<rparr>"]
        construction_validation
          [of "\<lparr>ms_count = 2, ms_multis_count = [1, 1], ms_windows = []\<rparr>"
              "\<lparr>ms_count = 2, ms_multis_count = [0, 3], ms_windows = []\<rparr>"]
  by auto

text \<open>
  C10. \<^verbatim>\<open>TTestReduction\<close> tests the sum of the two replicate counts only, so two
  groups with \<open>n1 + n2 \<ge> 3\<close> are accepted even when one group is empty, as for
  \<open>n1 = 0\<close>, \<open>n2 = 3\<close>.
\<close>

theorem ttest_accepts_empty_group:
  "ms_count multi = 2 \<Longrightarrow> 3 \<le> ms_multis_count multi ! 0 + ms_multis_count multi ! 1 \<Longrightarrow>
   TTestReduction multi = Inr (newWiggleIterator \<lparr>sc_multi = multi\<rparr>)"
  by (simp add: TTestReduction_def)

theorem ttest_accepts_empty_group_witness:
  "ms_count \<lparr>ms_count = 2, ms_multis_count = [0, 3], ms_windows = []\<rparr> = 2
   \<and> 3 \<le> ms_multis_count \<lparr>ms_count = 2, ms_multis_count = [0, 3], ms_windows = []\<rparr> ! 0
          + ms_multis_count \<lparr>ms_count = 2, ms_multis_count = [0, 3], ms_windows = []\<rparr> ! 1
   \<and> ms_multis_count \<lparr>ms_count = 2, ms_multis_count = [0, 3], ms_windows = []\<rparr> ! 0 = 0
   \<and> TTestReduction \<lparr>ms_count = 2, ms_multis_count = [0, 3], ms_windows = []\<rparr>
       = Inr (newWiggleIterator
                \<lparr>sc_multi = \<lparr>ms_count = 2, ms_multis_count = [0, 3], ms_windows = []\<rparr>\<rparr>)"
  using ttest_accepts_empty_group
          [of "\<lparr>ms_count = 2, ms_multis_count = [0, 3], ms_windows = []\<rparr>"]
  by simp

text \<open>
  C3. The claim gives \<open>mu_U = n1 * n2 / 2\<close> and \<open>sigma_U = sqrt (n1 * n2 * (n1 + n2 + 1) / 12)\<close>
  as real-valued formulas, \<open>0.5\<close> and \<open>0.5\<close> for \<open>n1 = n2 = 1\<close>. The source divides
  in \<^verbatim>\<open>int\<close> before the conversion to \<^verbatim>\<open>double\<close>: for \<open>n1 = n2 = 1\<close> both constants
  are \<open>0\<close>.
\<close>

theorem mwu_constants_truncated:
  "\<exists>wi. MWUReduction \<lparr>ms_count = 2, ms_multis_count = [1, 1], ms_windows = []\<rparr> = Inr wi
        \<and> mwu_n1 (wi_data wi) = 1 \<and> mwu_n2 (wi_data wi) = 1
        \<and> mu_U (wi_data wi) = 0 \<and> sigma_U (wi_data wi) = 0
        \<and> mu_U (wi_data wi) \<noteq> 1 * 1 / 2"
  by (simp add: MWUReduction_def newWiggleIterator_def Let_def signed_divide_int_def)

theorem mwu_constants_truncated_witness:
  "\<exists>wi. MWUReduction \<lparr>ms_count = 2, ms_multis_count = [1, 1], ms_windows = []\<rparr> = Inr wi
        \<and> mu_U (wi_data wi) = 0 \<and> sigma_U (wi_data wi) = 0"
  using mwu_constants_truncated by blast

section \<open>Which windows are emitted\<close>

text \<open>
  C8. For every qualifying window (both group flags set) the Mann-Whitney
  reducer emits exactly one record: the stream of a constructed reducer is, in
  order, one record for each qualifying window of the input. Nothing else
  decides an emission: tied values, zero variance or a degenerate \<open>sigma_U\<close> do
  not suppress the record.
\<close>

theorem mwu_one_record_per_qualifying_window:
  assumes "MWUReduction multi = Inr wi"
  shows "MWU_stream erf qsort wi =
           map (mwu_record erf qsort (wi_data wi)) (filter qualifying (ms_windows multi))"
  using MWU_stream_char[of wi erf qsort] MWUReduction_Inr[OF assms] by simp

theorem mwu_one_record_per_qualifying_window_witness:
  "\<forall>erf qsort. \<exists>wi.
     MWUReduction \<lparr>ms_count = 2, ms_multis_count = [1, 1],
        ms_windows = [\<lparr>w_chrom = ''chr1'', w_start = 0, w_finish = 10, w_inplay = [True, True],
                         w_multis_inplay = [[True], [True]], w_values = [[5], [5]]\<rparr>,
                      \<lparr>w_chrom = ''chr1'', w_start = 10, w_finish = 20, w_inplay = [True, False],
                         w_multis_inplay = [[True], [False]], w_values = [[5], [0]]\<rparr>]\<rparr> = Inr wi
     \<and> map (\<lambda>(c, s, f, v). (c, s, f)) (MWU_stream erf qsort wi) = [(''chr1'', 0, 10)]"
proof (intro allI)
  fix erf :: "real \<Rightarrow> real" and qsort :: "ValueSetPair list \<Rightarrow> ValueSetPair list"
  let ?M = "\<lparr>ms_count = 2, ms_multis_count = [1, 1],
        ms_windows = [\<lparr>w_chrom = ''chr1'', w_start = 0, w_finish = 10, w_inplay = [True, True],
                         w_multis_inplay = [[True], [True]], w_values = [[5], [5]]\<rparr>,
                      \<lparr>w_chrom = ''chr1'', w_start = 10, w_finish = 20, w_inplay = [True, False],
                         w_multis_inplay = [[True], [False]], w_values = [[5], [0]]\<rparr>]\<rparr>"
  obtain wi where wi: "MWUReduction ?M = Inr wi"
    by (simp add: MWUReduction_def Let_def)
  show "\<exists>wi. MWUReduction ?M = Inr wi
     \<and> map (\<lambda>(c, s, f, v). (c, s, f)) (MWU_stream erf qsort wi) = [(''chr1'', 0, 10)]"
    using mwu_one_record_per_qualifying_window[OF wi, of erf qsort] wi
    by (simp add: qualifying_def mwu_record_def)
qed

text \<open>
  C4. For both reducers every emitted window has at least one in-play replicate
  in each group, and a window where a group has none is skipped and never
  emitted: when the group flags of the synchronizer agree with the replicate
  flags, each stream is the image of windows that have an in-play replicate in
  both groups (for the T-test, those among them with a statistic).
\<close>

theorem emitted_windows_have_inplay_replicates:
  assumes "\<forall>w \<in> set (ms_windows multi). flags_consistent multi w"
  shows "(TTestReduction multi = Inr wi \<longrightarrow>
            TTest_stream ret ar wi =
              map (ttest_record ar multi)
                (filter (\<lambda>w. has_inplay_replicate multi w 0 \<and> has_inplay_replicate multi w 1
                              \<and> ttest_window_value ar multi w \<noteq> None)
                   (ms_windows multi)))
       \<and> (MWUReduction multi = Inr wi' \<longrightarrow>
            MWU_stream erf qsort wi' =
              map (mwu_record erf qsort (wi_data wi'))
                (filter (\<lambda>w. has_inplay_replicate multi w 0 \<and> has_inplay_replicate multi w 1)
                   (ms_windows multi)))"
proof (intro conjI impI)
  assume "TTestReduction multi = Inr wi"
  then show "TTest_stream ret ar wi =
              map (ttest_record ar multi)
                (filter (\<lambda>w. has_inplay_replicate multi w 0 \<and> has_inplay_replicate multi w 1
                              \<and> ttest_window_value ar multi w \<noteq> None)
                   (ms_windows multi))"
    using TTest_stream_flags assms by blast
next
  assume a: "MWUReduction multi = Inr wi'"
  have "filter qualifying (ms_windows multi) =
        filter (\<lambda>w. has_inplay_replicate multi w 0 \<and> has_inplay_replicate multi w 1)
          (ms_windows multi)"
    by (rule filter_cong) (use assms in \<open>auto simp: flags_consistent_def qualifying_def\<close>)
  then show "MWU_stream erf qsort wi' =
              map (mwu_record erf qsort (wi_data wi'))
                (filter (\<lambda>w. has_inplay_replicate multi w 0 \<and> has_inplay_replicate multi w 1)
                   (ms_windows multi))"
    using MWU_stream_char[of wi' erf qsort] MWUReduction_Inr[OF a] by simp
qed

theorem emitted_windows_have_inplay_replicates_witness:
  "\<forall>ret Q overflow erf qsort. \<exists>wi wi'.
     list_all (flags_consistent example_multiset) (ms_windows example_multiset)
     \<and> TTestReduction example_multiset = Inr wi
     \<and> MWUReduction example_multiset = Inr wi'
     \<and> map (\<lambda>(c, s, f, v). (c, s, f)) (TTest_stream ret (exact_arith Q overflow) wi)
         = [(''chr1'', 0, 10)]
     \<and> map (\<lambda>(c, s, f, v). (c, s, f)) (MWU_stream erf qsort wi') = [(''chr1'', 0, 10)]"
proof (intro allI)
  fix ret :: "SetComparisonData WiggleIterator \<Rightarrow> bool" and Q :: "real \<Rightarrow> real \<Rightarrow> real"
    and overflow :: "int \<Rightarrow> int"
    and erf :: "real \<Rightarrow> real" and qsort :: "ValueSetPair list \<Rightarrow> ValueSetPair list"
  let ?M = example_multiset and ?wA = example_window_A and ?wB = example_window_B
  let ?ar = "exact_arith Q overflow"
  have hA: "has_inplay_replicate ?M ?wA 0" "has_inplay_replicate ?M ?wA 1"
    by (simp_all add: has_inplay_replicate_def example_multiset_def example_window_A_def upt_rec)
  have hB: "has_inplay_replicate ?M ?wB 0" "\<not> has_inplay_replicate ?M ?wB 1"
    by (simp_all add: has_inplay_replicate_def example_multiset_def example_window_B_def upt_rec)
  have fA: "flags_consistent ?M ?wA"
    using hA by (simp add: flags_consistent_def) (simp add: example_window_A_def)
  have fB: "flags_consistent ?M ?wB"
    using hB by (simp add: flags_consistent_def) (simp add: example_window_B_def)
  have ws: "ms_windows ?M = [?wA, ?wB]" by (simp add: example_multiset_def)
  have cons: "\<forall>w \<in> set (ms_windows ?M). flags_consistent ?M w"
    using fA fB by (simp add: ws)
  have vA: "ttest_window_value ?ar ?M ?wA \<noteq> None"
    by (simp add: ttest_window_value_def ttest_value_None_iff var_sum_def exact_arith_def
          example_multiset_def example_window_A_def group_sums_def upt_rec Let_def)
  obtain wi where wi: "TTestReduction ?M = Inr wi"
    by (simp add: TTestReduction_def example_multiset_def)
  obtain wi' where wi': "MWUReduction ?M = Inr wi'"
    by (simp add: MWUReduction_def example_multiset_def Let_def)
  note t = emitted_windows_have_inplay_replicates[OF cons, of wi ret ?ar wi' erf qsort]
  have c: "w_chrom ?wA = ''chr1''" "w_start ?wA = 0" "w_finish ?wA = 10"
    by (simp_all add: example_window_A_def)
  have 1: "map (\<lambda>(c, s, f, v). (c, s, f)) (TTest_stream ret ?ar wi) = [(''chr1'', 0, 10)]"
    using t wi hA hB vA by (simp add: ws ttest_record_def c)
  have 2: "map (\<lambda>(c, s, f, v). (c, s, f)) (MWU_stream erf qsort wi') = [(''chr1'', 0, 10)]"
    using t wi' hA hB by (simp add: ws mwu_record_def c)
  have 0: "list_all (flags_consistent ?M) (ms_windows ?M)"
    using fA fB by (simp add: ws)
  from 0 1 2 wi wi' show "\<exists>wi wi'.
     list_all (flags_consistent example_multiset) (ms_windows example_multiset)
     \<and> TTestReduction example_multiset = Inr wi
     \<and> MWUReduction example_multiset = Inr wi'
     \<and> map (\<lambda>(c, s, f, v). (c, s, f)) (TTest_stream ret (exact_arith Q overflow) wi)
         = [(''chr1'', 0, 10)]
     \<and> map (\<lambda>(c, s, f, v). (c, s, f)) (MWU_stream erf qsort wi') = [(''chr1'', 0, 10)]"
    by (intro exI[of _ wi] exI[of _ wi'] conjI)
qed


section \<open>Windows the T-test does not emit\<close>

text \<open>
  C5, as amended. The reducer reaches window \<open>w\<close>, the first of the remaining
  windows with both group flags set; both replicate counts are non-zero and the
  test \<^verbatim>\<open>var1 + var2 == 0\<close> succeeds on the sum computed at \<open>w\<close>. Then
  \<^verbatim>\<open>TTestReductionPop2\<close> returns false, with the synchronizer advanced past \<open>w\<close>
  and no value stored; the pull loop \<^verbatim>\<open>TTestReductionPop\<close> continues from that
  state; and the records pulled from the iterator are those of the emitting
  windows after \<open>w\<close>, in order. No branch taken is an error. This holds in
  every arithmetic.
\<close>

theorem ttest_zero_variance_skipped:
  assumes nd: "\<not> wi_done wi" and m: "sc_multi (wi_data wi) = m"
    and dw: "dropWhile (\<lambda>w. \<not> qualifying w) (ms_windows m) = w # rest"
    and c: "ms_multis_count m ! 0 \<noteq> 0" "ms_multis_count m ! 1 \<noteq> 0"
    and z: "zero_variance_test ar m w"
  shows "TTestReductionPop2 ret ar wi = (ttest_at wi m w rest, False)
       \<and> TTestReductionPop ret ar wi = TTestReductionPop ret ar (ttest_at wi m w rest)
       \<and> TTest_stream ret ar wi = TTest_stream ret ar (ttest_at wi m w rest)
       \<and> TTest_stream ret ar wi = map (ttest_record ar m) (filter (ttest_emits ar m) rest)"
proof -
  have v: "ttest_window_value ar m w = None"
    using z by (simp add: ttest_window_value_None)
  have 1: "TTestReductionPop2 ret ar wi = (ttest_at wi m w rest, False)"
    using Pop2_found(2)[OF nd m[symmetric] dw c, of ret ar] v by simp
  have 2: "TTestReductionPop ret ar wi = TTestReductionPop ret ar (ttest_at wi m w rest)"
    using TTestReductionPop_step[OF nd, of ret ar] 1 by simp
  have 3: "TTest_stream ret ar wi = TTest_stream ret ar (ttest_at wi m w rest)"
    using 2 by (rule TTest_stream_cong)
  have "filter (ttest_emits ar m) (ms_windows m) = filter (ttest_emits ar m) (w # rest)"
    using filter_dropWhile[of "ttest_emits ar m" qualifying "ms_windows m"] dw
    by (simp add: ttest_emits_def)
  also have "\<dots> = filter (ttest_emits ar m) rest"
    using v by (simp add: ttest_emits_def)
  finally have 4:
    "TTest_stream ret ar wi = map (ttest_record ar m) (filter (ttest_emits ar m) rest)"
    using TTest_stream_char[OF nd m[symmetric] c, of ret ar] by simp
  from 1 2 3 4 show ?thesis by (intro conjI)
qed

text \<open>
  An instance: groups \<open>A = [1, 1]\<close> and \<open>B = [4, 4]\<close>, all in play, followed by a
  window with \<open>A = [1, 3]\<close> and \<open>B = [5, 7]\<close>. Every operation on these values is
  exact in doubles. The first window gives \<open>var1 + var2 = 0\<close> and no record; the
  stream is the record of the second window.
\<close>

theorem ttest_zero_variance_skipped_witness:
  "\<forall>ret Q overflow.
     zero_variance_test (exact_arith Q overflow) constant_first_multiset constant_window
     \<and> snd (TTestReductionPop2 ret (exact_arith Q overflow)
              (newWiggleIterator \<lparr>sc_multi = constant_first_multiset\<rparr>)) = False
     \<and> TTest_stream ret (exact_arith Q overflow)
          (newWiggleIterator \<lparr>sc_multi = constant_first_multiset\<rparr>)
        = [(''chr1'', 10, 20, 2 * Q 4 2)]"
proof (intro allI)
  fix ret :: "SetComparisonData WiggleIterator \<Rightarrow> bool" and Q :: "real \<Rightarrow> real \<Rightarrow> real"
    and overflow :: "int \<Rightarrow> int"
  let ?M = constant_first_multiset and ?w = constant_window
  let ?ar = "exact_arith Q overflow"
  let ?wi = "newWiggleIterator \<lparr>sc_multi = ?M\<rparr>"
  have cnt: "ms_multis_count ?M = [2, 2]"
    and ws: "ms_windows ?M = [?w, varied_window]"
    by (simp_all add: constant_first_multiset_def)
  have q: "qualifying ?w" by (simp add: qualifying_def constant_window_def)
  have dw: "dropWhile (\<lambda>w. \<not> qualifying w) (ms_windows ?M) = ?w # [varied_window]"
    using q by (simp add: ws)
  have z: "zero_variance_test ?ar ?M ?w"
    by (simp add: zero_variance_test_def computed_var_sum_def var_sum_def exact_arith_def cnt
          constant_window_def group_sums_def upt_rec Let_def)
  have nd: "\<not> wi_done ?wi" and d: "sc_multi (wi_data ?wi) = ?M" by simp_all
  have c0: "ms_multis_count ?M ! 0 \<noteq> 0" "ms_multis_count ?M ! 1 \<noteq> 0"
    by (simp_all add: cnt)
  note t = ttest_zero_variance_skipped[OF nd d dw c0 z, of ret]
  have t': "TTestReductionPop2 ret ?ar ?wi = (ttest_at ?wi ?M ?w [varied_window], False)"
    "TTest_stream ret ?ar ?wi =
       map (ttest_record ?ar ?M) (filter (ttest_emits ?ar ?M) [varied_window])"
    using t by blast+
  have v: "ttest_window_value ?ar ?M varied_window = Some (2 * Q 4 2)"
    using cnt by (rule varied_window_value)
  have q': "qualifying varied_window" by (simp add: qualifying_def varied_window_def)
  have c: "w_chrom varied_window = ''chr1''" "w_start varied_window = 10"
    "w_finish varied_window = 20"
    by (simp_all add: varied_window_def)
  have p2: "snd (TTestReductionPop2 ret ?ar ?wi) = False" using t'(1) by simp
  have s: "TTest_stream ret ?ar ?wi = [(''chr1'', 10, 20, 2 * Q 4 2)]"
    using t'(2) v q' by (simp add: ttest_emits_def ttest_record_def c)
  from z p2 s show
    "zero_variance_test (exact_arith Q overflow) constant_first_multiset constant_window
     \<and> snd (TTestReductionPop2 ret (exact_arith Q overflow)
              (newWiggleIterator \<lparr>sc_multi = constant_first_multiset\<rparr>)) = False
     \<and> TTest_stream ret (exact_arith Q overflow)
          (newWiggleIterator \<lparr>sc_multi = constant_first_multiset\<rparr>)
        = [(''chr1'', 10, 20, 2 * Q 4 2)]"
    by (intro conjI)
qed

text \<open>
  C5 as stated fails in its last clause: "identical constant in-play values" do
  not make the computed sum zero when a replicate is not in play, because the
  sums run over the in-play values and the divisor is the fixed replicate
  count. Here each group has two replicates, one of them in play with value 1:
  every in-play value is 1, every operation is exact in doubles,
  \<open>var1 + var2 = 1/2\<close>, and the window is emitted.
\<close>

theorem constant_inplay_values_emitted:
  "inplay_values (w_multis_inplay partly_inplay_window ! 0) (w_values partly_inplay_window ! 0) = [1]
   \<and> inplay_values (w_multis_inplay partly_inplay_window ! 1) (w_values partly_inplay_window ! 1) = [1]
   \<and> list_all (flags_consistent partly_inplay_multiset) (ms_windows partly_inplay_multiset)
   \<and> computed_var_sum (exact_arith (\<lambda>t nu. 0) (\<lambda>x. x)) partly_inplay_multiset
        partly_inplay_window = 1 / 2
   \<and> map (\<lambda>(c, s, f, v). (c, s, f))
        (TTest_stream (\<lambda>wi. True) (exact_arith (\<lambda>t nu. 0) (\<lambda>x. x))
           (newWiggleIterator \<lparr>sc_multi = partly_inplay_multiset\<rparr>))
      = [(''chr1'', 0, 10)]"
proof -
  let ?M = partly_inplay_multiset and ?w = partly_inplay_window
  let ?ar = "exact_arith (\<lambda>t nu. 0) (\<lambda>x. x)"
  have ws: "ms_windows ?M = [?w]" and cnt: "ms_multis_count ?M = [2, 2]"
    by (simp_all add: partly_inplay_multiset_def)
  have v: "computed_var_sum ?ar ?M ?w = 1 / 2"
    by (simp add: computed_var_sum_def var_sum_def exact_arith_def cnt partly_inplay_window_def
          group_sums_def upt_rec Let_def)
  have nz: "ttest_window_value ?ar ?M ?w \<noteq> None"
    using v by (simp add: ttest_window_value_None zero_variance_test_def)
      (simp add: exact_arith_def)
  then obtain p where p: "ttest_window_value ?ar ?M ?w = Some p" by blast
  have q: "qualifying ?w" by (simp add: qualifying_def partly_inplay_window_def)
  have f: "flags_consistent ?M ?w"
    by (simp add: flags_consistent_def has_inplay_replicate_def cnt partly_inplay_window_def upt_rec)
  have i: "inplay_values (w_multis_inplay ?w ! 0) (w_values ?w ! 0) = [1]"
    "inplay_values (w_multis_inplay ?w ! 1) (w_values ?w ! 1) = [1]"
    by (simp_all add: inplay_values_def partly_inplay_window_def)
  have c: "w_chrom ?w = ''chr1''" "w_start ?w = 0" "w_finish ?w = 10"
    by (simp_all add: partly_inplay_window_def)
  have s: "map (\<lambda>(c, s, f, v). (c, s, f))
        (TTest_stream (\<lambda>wi. True) ?ar (newWiggleIterator \<lparr>sc_multi = ?M\<rparr>))
      = [(''chr1'', 0, 10)]"
    using single_window_stream[of "newWiggleIterator \<lparr>sc_multi = ?M\<rparr>" ?M ?w ?ar p "\<lambda>wi. True"]
      ws q p
    by (simp add: cnt c)
  from i f v s show ?thesis by (simp add: ws)
qed



section \<open>The Mann-Whitney value and rank sum\<close>

text \<open>
  C9. Whenever \<open>sigma_U > 0\<close>, every value the Mann-Whitney reducer emits is at
  most zero, and it is zero exactly when the \<open>U1\<close> of that window equals \<open>mu_U\<close>:
  the branch taken always subtracts the larger of \<open>U1\<close> and \<open>mu_U\<close> from the
  smaller. The error function of the C library enters through \<open>erf 0 = 0\<close> and
  \<open>erf x < 0\<close> for \<open>x < 0\<close>. In the instance below \<open>arctan\<close>, which has these two
  properties, stands for it, and \<open>sort_key\<close>, a stable sort by value, for the
  library sort.
\<close>

theorem mwu_values_nonpositive:
  assumes "MWUReduction multi = Inr wi" "0 < sigma_U (wi_data wi)"
    "erf 0 = 0" "\<forall>x<0. erf x < 0"
  shows "list_all2
           (\<lambda>r w. record_value r \<le> 0 \<and>
                   (record_value r = 0 \<longleftrightarrow>
                      mwu_window_U1 qsort (wi_data wi) w = mu_U (wi_data wi)))
           (MWU_stream erf qsort wi) (filter qualifying (ms_windows multi))"
proof -
  have s: "MWU_stream erf qsort wi =
           map (mwu_record erf qsort (wi_data wi)) (filter qualifying (ms_windows multi))"
    using MWU_stream_char[of wi erf qsort] MWUReduction_Inr[OF assms(1)] by simp
  show ?thesis
    unfolding s list_all2_map1
    by (rule list_all2_refl)
       (use mwu_pvalue_sign[OF assms(2,3,4)] in \<open>simp add: mwu_record_def record_value_def\<close>)
qed

theorem mwu_values_nonpositive_witness:
  "\<exists>wi. MWUReduction mwu_example_multiset = Inr wi
     \<and> sigma_U (wi_data wi) = 1 \<and> mu_U (wi_data wi) = 2
     \<and> mwu_window_U1 (sort_key vsp_value) (wi_data wi) mwu_example_window = 0
     \<and> MWU_stream arctan (sort_key vsp_value) wi = [(''chr1'', 0, 10, 2 * arctan (- 2))]
     \<and> list_all (\<lambda>r. record_value r < 0) (MWU_stream arctan (sort_key vsp_value) wi)"
proof -
  let ?M = mwu_example_multiset and ?w = mwu_example_window
  let ?q = "sort_key vsp_value :: ValueSetPair list \<Rightarrow> ValueSetPair list"
  obtain wi where wi: "MWUReduction ?M = Inr wi"
    by (simp add: MWUReduction_def mwu_example_multiset_def Let_def)
  have d: "sigma_U (wi_data wi) = 1" "mu_U (wi_data wi) = 2"
    "mwu_n1 (wi_data wi) = 2" "mwu_n2 (wi_data wi) = 2" "mwu_N (wi_data wi) = 4"
    using wi
    by (auto simp: MWUReduction_def mwu_example_multiset_def Let_def newWiggleIterator_def
          signed_divide_int_def)
  have ws: "ms_windows ?M = [?w]" by (simp add: mwu_example_multiset_def)
  have q: "qualifying ?w" by (simp add: qualifying_def mwu_example_window_def)
  have tbl: "mwu_window_table ?q (wi_data wi) ?w = [entry_A 1, entry_A 2, entry_B 3, entry_B 4]"
    by (simp add: mwu_window_table_def d fill_table_def mwu_example_window_def upt_rec
          entry_A_def entry_B_def)
  have u: "mwu_window_U1 ?q (wi_data wi) ?w = 0"
    unfolding mwu_window_U1_def tbl d
    by (simp add: rank_loops entry_A_def entry_B_def Let_def)
  have c: "w_chrom ?w = ''chr1''" "w_start ?w = 0" "w_finish ?w = 10"
    by (simp_all add: mwu_example_window_def)
  have s: "MWU_stream arctan ?q wi = [(''chr1'', 0, 10, 2 * arctan (- 2))]"
    using MWU_stream_char[of wi arctan ?q] MWUReduction_Inr[OF wi] q
    by (simp add: ws mwu_record_def c u mwu_pvalue_def d)
  have "list_all2
           (\<lambda>r w. record_value r \<le> 0 \<and>
                   (record_value r = 0 \<longleftrightarrow>
                      mwu_window_U1 ?q (wi_data wi) w = mu_U (wi_data wi)))
           (MWU_stream arctan ?q wi) (filter qualifying (ms_windows ?M))"
    by (rule mwu_values_nonpositive[OF wi]) (simp_all add: d arctan_less_zero_iff)
  then have n: "list_all (\<lambda>r. record_value r < 0) (MWU_stream arctan ?q wi)"
    unfolding s using q by (simp add: ws u d)
  from wi d(1,2) u s n show ?thesis by (intro exI[of _ wi] conjI)
qed

text \<open>
  C2. The claim: when all \<open>N\<close> entries of the ranking table hold the same value,
  the scan yields \<open>U1 = n1 * n2 / 2\<close> in whatever order the sort leaves the tied
  entries. The scan of the source does not: for \<open>n1 = 2\<close>, \<open>n2 = 1\<close> the three
  arrangements of the table give 0, 2 and 2, never \<open>n1 * n2 / 2 = 1\<close>, and for
  \<open>n1 = n2 = 1\<close> the two arrangements give 1/2 and 1. At the window A = [7, 7],
  B = [7] a stable sort leaves the table as it was filled and the reducer
  computes \<open>U1 = 0\<close>.
\<close>

theorem all_tied_rank_sum:
  "U1_loop [entry_A 7, entry_A 7, entry_B 7] 3 2 0 0 0 0 0 = 0
   \<and> U1_loop [entry_A 7, entry_B 7, entry_A 7] 3 2 0 0 0 0 0 = 2
   \<and> U1_loop [entry_B 7, entry_A 7, entry_A 7] 3 2 0 0 0 0 0 = 2
   \<and> U1_loop [entry_A 7, entry_B 7] 2 1 0 0 0 0 0 = 1 / 2
   \<and> U1_loop [entry_B 7, entry_A 7] 2 1 0 0 0 0 0 = 1
   \<and> (\<exists>wi. MWUReduction tied_multiset = Inr wi
         \<and> mwu_window_table (sort_key vsp_value) (wi_data wi) tied_window
             = [entry_A 7, entry_A 7, entry_B 7]
         \<and> mwu_window_U1 (sort_key vsp_value) (wi_data wi) tied_window = 0
         \<and> real_of_int (mwu_n1 (wi_data wi) * mwu_n2 (wi_data wi)) / 2 = 1)"
proof -
  let ?q = "sort_key vsp_value :: ValueSetPair list \<Rightarrow> ValueSetPair list"
  have e: "U1_loop [entry_A 7, entry_A 7, entry_B 7] 3 2 0 0 0 0 0 = 0"
    "U1_loop [entry_A 7, entry_B 7, entry_A 7] 3 2 0 0 0 0 0 = 2"
    "U1_loop [entry_B 7, entry_A 7, entry_A 7] 3 2 0 0 0 0 0 = 2"
    "U1_loop [entry_A 7, entry_B 7] 2 1 0 0 0 0 0 = 1 / 2"
    "U1_loop [entry_B 7, entry_A 7] 2 1 0 0 0 0 0 = 1"
    by (simp_all add: rank_loops entry_A_def entry_B_def Let_def)
  obtain wi where wi: "MWUReduction tied_multiset = Inr wi"
    by (simp add: MWUReduction_def tied_multiset_def Let_def)
  have d: "mwu_n1 (wi_data wi) = 2" "mwu_n2 (wi_data wi) = 1" "mwu_N (wi_data wi) = 3"
    using wi
    by (auto simp: MWUReduction_def tied_multiset_def Let_def newWiggleIterator_def)
  have tbl: "mwu_window_table ?q (wi_data wi) tied_window = [entry_A 7, entry_A 7, entry_B 7]"
    by (simp add: mwu_window_table_def d fill_table_def tied_window_def upt_rec
          entry_A_def entry_B_def)
  have u: "mwu_window_U1 ?q (wi_data wi) tied_window = 0"
    unfolding mwu_window_U1_def tbl d by (rule e(1))
  have "\<exists>wi. MWUReduction tied_multiset = Inr wi
         \<and> mwu_window_table ?q (wi_data wi) tied_window = [entry_A 7, entry_A 7, entry_B 7]
         \<and> mwu_window_U1 ?q (wi_data wi) tied_window = 0
         \<and> real_of_int (mwu_n1 (wi_data wi) * mwu_n2 (wi_data wi)) / 2 = 1"
    using wi tbl u d by (intro exI[of _ wi]) simp
  with e show ?thesis by (intro conjI)
qed

theorem all_tied_rank_sum_witness:
  "U1_loop [entry_A 7, entry_A 7, entry_B 7] 3 2 0 0 0 0 0 \<noteq> 2 * 1 / 2
   \<and> U1_loop [entry_A 7, entry_B 7, entry_A 7] 3 2 0 0 0 0 0 \<noteq> 2 * 1 / 2
   \<and> U1_loop [entry_B 7, entry_A 7, entry_A 7] 3 2 0 0 0 0 0 \<noteq> 2 * 1 / 2
   \<and> U1_loop [entry_A 7, entry_B 7] 2 1 0 0 0 0 0 \<noteq> U1_loop [entry_B 7, entry_A 7] 2 1 0 0 0 0 0"
  using all_tied_rank_sum by simp

end
